theory Spec2Isabelle
  imports Main "HOL-Library.Monad_Syntax"
begin

section \<open>Strings\<close>

text \<open>
  A string is a list of code units; the model covers the code units below 256 (ASCII and
  Latin-1), which is what \<^typ>\<open>char\<close> holds. \<open>String.prototype.trim\<close> removes the
  white space and line terminators of ECMAScript from both ends; below 256 these are
  U+0009 .. U+000D, U+0020 and U+00A0.
\<close>

definition isSpace :: "char \<Rightarrow> bool" where
  "isSpace c = (let n = (of_char c :: nat) in (9 \<le> n \<and> n \<le> 13) \<or> n = 32 \<or> n = 160)"

definition trim :: "string \<Rightarrow> string" where
  "trim s = rev (dropWhile isSpace (rev (dropWhile isSpace s)))"

text \<open>
  \<open>String.prototype.toLowerCase\<close> below 256: A .. Z and the Latin-1 capitals
  U+00C0 .. U+00DE (U+00D7, the multiplication sign, apart) move up by 32.
\<close>

definition toLowerChar :: "char \<Rightarrow> char" where
  "toLowerChar c =
     (let n = (of_char c :: nat)
      in if (65 \<le> n \<and> n \<le> 90) \<or> (192 \<le> n \<and> n \<le> 222 \<and> n \<noteq> 215)
         then char_of (n + 32) else c)"

definition toLowerCase :: "string \<Rightarrow> string" where
  "toLowerCase s = map toLowerChar s"

text \<open>The character class \<open>[a-z0-9]\<close>.\<close>

definition isSlugChar :: "char \<Rightarrow> bool" where
  "isSlugChar c =
     (let n = (of_char c :: nat) in (97 \<le> n \<and> n \<le> 122) \<or> (48 \<le> n \<and> n \<le> 57))"

text \<open>
  \<open>.replace(/[^a-z0-9]+/g, '_')\<close>: every maximal run of characters outside the class
  becomes one underscore. The flag says whether the scan is inside such a run.
\<close>

fun collapseRuns :: "bool \<Rightarrow> string \<Rightarrow> string" where
  "collapseRuns inRun [] = []"
| "collapseRuns inRun (c # cs) =
     (if isSlugChar c then c # collapseRuns False cs
      else if inRun then collapseRuns True cs
      else CHR ''_'' # collapseRuns True cs)"

text \<open>\<open>.replace(/^_+|_+$/g, '')\<close>: the underscores at both ends go.\<close>

definition stripUnderscores :: "string \<Rightarrow> string" where
  "stripUnderscores s =
     rev (dropWhile (\<lambda>c. c = CHR ''_'') (rev (dropWhile (\<lambda>c. c = CHR ''_'') s)))"

text \<open>\<open>slugify\<close> of \<open>lib/ids.ts\<close>; the empty result falls back to \<open>'state'\<close>.\<close>

definition slugify :: "string \<Rightarrow> string" where
  "slugify v =
     (let s = stripUnderscores (collapseRuns False (toLowerCase (trim v)))
      in if s = [] then ''state'' else s)"

text \<open>
  Number to text in a radix, as a template literal (radix 10) and
  \<open>Number.prototype.toString(36)\<close> do for a non-negative integer.
\<close>

definition digitChar :: "nat \<Rightarrow> char" where
  "digitChar d = (''0123456789abcdefghijklmnopqrstuvwxyz'' ! d)"

function showRadix :: "nat \<Rightarrow> nat \<Rightarrow> string" where
  "showRadix b n =
     (if b < 2 \<or> n < b then [digitChar n]
      else showRadix b (n div b) @ [digitChar (n mod b)])"
  by pat_completeness auto
termination
  by (relation "measure (\<lambda>(b, n). n)") auto

definition showNat :: "nat \<Rightarrow> string" where
  "showNat n = showRadix 10 n"

section \<open>The machine document\<close>

text \<open>
  \<open>types/machine.ts\<close>. The fields the core reads are kept: position, style, extent,
  the edge marker, the version and the viewport are presentation data that no function
  below inspects. An absent \<open>parentNode\<close> is \<open>None\<close>.
\<close>

datatype NodeKind = Atomic | Initial | Final | Parallel

record StateNodeData =
  label :: string
  kind :: NodeKind

record StateNode =
  id_node :: string
  parentNode :: "string option"
  data_node :: StateNodeData

record TransitionData =
  event :: string
  guard :: string
  actions :: "string list"

record TransitionEdge =
  id_edge :: string
  source :: string
  target :: string
  data_edge :: TransitionData

record MachineDocument =
  machineId :: string
  nodes :: "StateNode list"
  edges :: "TransitionEdge list"

text \<open>The helpers \<open>node\<close> and \<open>edge\<close> of \<open>examples/machines.ts\<close>.\<close>

definition mkNode :: "string \<Rightarrow> string \<Rightarrow> NodeKind \<Rightarrow> string option \<Rightarrow> StateNode" where
  "mkNode i l k p = \<lparr>id_node = i, parentNode = p, data_node = \<lparr>label = l, kind = k\<rparr>\<rparr>"

definition mkEdge ::
  "string \<Rightarrow> string \<Rightarrow> string \<Rightarrow> string \<Rightarrow> string \<Rightarrow> string list \<Rightarrow> TransitionEdge" where
  "mkEdge i s t ev g acts =
     \<lparr>id_edge = i, source = s, target = t,
      data_edge = \<lparr>event = ev, guard = g, actions = acts\<rparr>\<rparr>"

definition checkoutMachine :: MachineDocument where
  "checkoutMachine =
     \<lparr>machineId = ''checkoutFlow'',
      nodes =
        [mkNode ''co_init'' ''Initial'' Initial None,
         mkNode ''cart'' ''Cart'' Atomic None,
         mkNode ''review'' ''Review (Parallel)'' Parallel None,
         mkNode ''review_shipping'' ''Shipping'' Atomic (Some ''review''),
         mkNode ''review_payment'' ''Payment'' Atomic (Some ''review''),
         mkNode ''review_init_shipping'' ''Initial'' Initial (Some ''review''),
         mkNode ''confirm'' ''Confirm'' Atomic None,
         mkNode ''done'' ''Done'' Final None],
      edges =
        [mkEdge ''e_co_init_cart'' ''co_init'' ''cart'' ''INIT'' '''' [],
         mkEdge ''e_cart_review'' ''cart'' ''review'' ''BEGIN_CHECKOUT'' '''' [''lockInventory''],
         mkEdge ''e_review_init_shipping'' ''review_init_shipping'' ''review_shipping'' ''INIT'' '''' [],
         mkEdge ''e_shipping_payment'' ''review_shipping'' ''review_payment'' ''SHIPPING_OK'' '''' [],
         mkEdge ''e_payment_confirm'' ''review_payment'' ''confirm'' ''PAYMENT_OK'' ''true''
           [''capturePayment''],
         mkEdge ''e_confirm_done'' ''confirm'' ''done'' ''PLACE_ORDER'' '''' [''emitOrderPlaced'']]\<rparr>"

definition trafficLightMachine :: MachineDocument where
  "trafficLightMachine =
     \<lparr>machineId = ''trafficLight'',
      nodes =
        [mkNode ''tl_init'' ''Initial'' Initial None,
         mkNode ''red'' ''Red'' Atomic None,
         mkNode ''green'' ''Green'' Atomic None,
         mkNode ''yellow'' ''Yellow'' Atomic None],
      edges =
        [mkEdge ''e_tl_init_red'' ''tl_init'' ''red'' ''INIT'' '''' [],
         mkEdge ''e_tl_red_green'' ''red'' ''green'' ''TIMER'' '''' [''startGoTimer''],
         mkEdge ''e_tl_green_yellow'' ''green'' ''yellow'' ''TIMER'' '''' [''warnDrivers''],
         mkEdge ''e_tl_yellow_red'' ''yellow'' ''red'' ''TIMER'' '''' [''stopTraffic'']]\<rparr>"

text \<open>Small documents for the closed examples below.\<close>

definition selfParentMachine :: MachineDocument where
  "selfParentMachine =
     \<lparr>machineId = ''loop'',
      nodes = [mkNode ''a'' ''A'' Atomic (Some ''a'')],
      edges = []\<rparr>"

definition parentCycleMachine :: MachineDocument where
  "parentCycleMachine =
     \<lparr>machineId = ''cycle'',
      nodes = [mkNode ''a'' ''A'' Atomic (Some ''b''), mkNode ''b'' ''B'' Atomic (Some ''a'')],
      edges = []\<rparr>"

definition loneParallelMachine :: MachineDocument where
  "loneParallelMachine =
     \<lparr>machineId = ''lone'',
      nodes = [mkNode ''p'' ''P'' Parallel None],
      edges = []\<rparr>"

definition nestedMachine :: MachineDocument where
  "nestedMachine =
     \<lparr>machineId = ''nested'',
      nodes =
        [mkNode ''p'' ''Parent'' Atomic None,
         mkNode ''c1'' ''First'' Atomic (Some ''p''),
         mkNode ''c2'' ''Second'' Final (Some ''p'')],
      edges = []\<rparr>"

definition paddedEventMachine :: MachineDocument where
  "paddedEventMachine =
     \<lparr>machineId = ''padded'',
      nodes = [mkNode ''a'' ''A'' Atomic None, mkNode ''b'' ''B'' Atomic None],
      edges = [mkEdge ''e1'' ''a'' ''b'' '' GO '' '''' []]\<rparr>"

definition duplicateIdMachine :: MachineDocument where
  "duplicateIdMachine =
     \<lparr>machineId = ''twice'',
      nodes = [mkNode ''x'' ''Outer'' Atomic None, mkNode ''x'' ''Inner'' Atomic (Some ''x'')],
      edges = []\<rparr>"

definition guardedEventMachine :: MachineDocument where
  "guardedEventMachine =
     \<lparr>machineId = ''guarded'',
      nodes = [mkNode ''a'' ''A'' Atomic None, mkNode ''b'' ''B'' Atomic None],
      edges = [mkEdge ''e1'' ''a'' ''b'' ''GO'' ''1 === 2'' []]\<rparr>"

definition loopGuardMachine :: MachineDocument where
  "loopGuardMachine =
     \<lparr>machineId = ''looping'',
      nodes = [mkNode ''a'' ''A'' Atomic None, mkNode ''b'' ''B'' Atomic None],
      edges = [mkEdge ''e1'' ''a'' ''b'' ''GO'' ''(function(){for(;;){}})()'' []]\<rparr>"

section \<open>Simulation (\<open>lib/simulation.ts\<close>)\<close>

text \<open>
  The three lookup tables of \<open>buildMaps\<close>. Every read of the two list-valued tables in
  the source is \<open>map.get(key) ?? []\<close>, so they are functions into lists; a \<open>Map\<close> built
  from entries keeps the last entry of a repeated key.
\<close>

record SimulationMaps =
  nodeById :: "string \<Rightarrow> StateNode option"
  edgesBySource :: "string \<Rightarrow> TransitionEdge list"
  childrenByParent :: "string option \<Rightarrow> StateNode list"

definition buildMaps :: "MachineDocument \<Rightarrow> SimulationMaps" where
  "buildMaps machine =
     \<lparr>nodeById = map_of (rev (map (\<lambda>n. (id_node n, n)) (nodes machine))),
      edgesBySource = (\<lambda>s. filter (\<lambda>e. source e = s) (edges machine)),
      childrenByParent = (\<lambda>p. filter (\<lambda>n. parentNode n = p) (nodes machine))\<rparr>"

definition isMarker :: "StateNode \<Rightarrow> bool" where
  "isMarker n = (kind (data_node n) = Initial)"

text \<open>
  A string that may be \<open>undefined\<close> or \<open>null\<close>, used as a condition: the empty string is
  falsy, as the absent value is. \<open>firstOf\<close> is the read \<open>xs[0]\<close>.
\<close>

definition truthy :: "string option \<Rightarrow> string option" where
  "truthy v = (case v of None \<Rightarrow> None | Some s \<Rightarrow> if s = [] then None else Some s)"

definition firstOf :: "'a list \<Rightarrow> 'a option" where
  "firstOf xs = (case xs of [] \<Rightarrow> None | x # _ \<Rightarrow> Some x)"

definition findInitialTarget :: "string option \<Rightarrow> SimulationMaps \<Rightarrow> string option" where
  "findInitialTarget parentId maps =
     (let siblings = childrenByParent maps parentId;
          viaMarker =
            (case find isMarker siblings of
               None \<Rightarrow> None
             | Some initialMarker \<Rightarrow>
                 map_option target (firstOf (edgesBySource maps (id_node initialMarker))))
      in case viaMarker of
           Some t \<Rightarrow> Some t
         | None \<Rightarrow> map_option id_node (find (\<lambda>n. \<not> isMarker n) siblings))"

text \<open>Iterating a list of results in order, stopping at the first that does not return.\<close>

fun mapM_option :: "('a \<Rightarrow> 'b option) \<Rightarrow> 'a list \<Rightarrow> 'b list option" where
  "mapM_option f [] = Some []"
| "mapM_option f (x # xs) =
     Option.bind (f x) (\<lambda>y. Option.bind (mapM_option f xs) (\<lambda>ys. Some (y # ys)))"

lemma mapM_option_mono [partial_function_mono]:
  assumes "\<And>x. mono_option (\<lambda>f. B f x)"
  shows "mono_option (\<lambda>f. mapM_option (B f) xs)"
proof (induction xs)
  case Nil
  show ?case by (simp add: option.const_mono)
next
  case (Cons x xs)
  show ?case
    unfolding mapM_option.simps
    by (intro bind_mono assms Cons option.const_mono)
qed

text \<open>A \<open>Set\<close> of strings read back as an array: insertion order, first occurrence kept.\<close>

definition setAdd :: "string list \<Rightarrow> string \<Rightarrow> string list" where
  "setAdd acc x = (if x \<in> set acc then acc else acc @ [x])"

definition setAddAll :: "string list \<Rightarrow> string list" where
  "setAddAll xs = foldl setAdd [] xs"

definition realChildren :: "SimulationMaps \<Rightarrow> string \<Rightarrow> StateNode list" where
  "realChildren maps nodeId =
     filter (\<lambda>child. \<not> isMarker child) (childrenByParent maps (Some nodeId))"

text \<open>
  \<open>enterNode\<close>. The result is \<open>None\<close> when the recursion does not return. The source
  adds \<open>nodeId\<close> to \<open>seen\<close> in place and hands the same set to its single recursive call;
  a parallel node hands each region a copy.
\<close>

partial_function (option) enterNode ::
  "string \<Rightarrow> SimulationMaps \<Rightarrow> string set \<Rightarrow> string list option" where
  "enterNode nodeId maps seen =
     (if nodeId \<in> seen then Some []
      else
        (case nodeById maps nodeId of
           None \<Rightarrow> Some []
         | Some node \<Rightarrow>
             if kind (data_node node) = Initial then
               (case truthy (map_option target (firstOf (edgesBySource maps (id_node node)))) of
                  None \<Rightarrow> Some []
                | Some t \<Rightarrow> enterNode t maps (insert nodeId seen))
             else
               (let children = realChildren maps (id_node node)
                in if children = [] then Some [id_node node]
                   else if kind (data_node node) = Parallel then
                     Option.bind
                       (mapM_option
                          (\<lambda>child. enterNode (id_node child) maps (insert nodeId seen))
                          children)
                       (\<lambda>ls. Some (setAddAll (concat ls)))
                   else
                     (case truthy
                             (case findInitialTarget (Some (id_node node)) maps of
                                Some t \<Rightarrow> Some t
                              | None \<Rightarrow> map_option id_node (firstOf children)) of
                        None \<Rightarrow> Some [id_node node]
                      | Some initialTarget \<Rightarrow>
                          enterNode initialTarget maps (insert nodeId seen)))))"

declare enterNode.simps [code]

text \<open>
  \<open>getAncestors\<close>: the \<open>while (current)\<close> loop. Nothing bounds it: on a cycle of
  \<open>parentNode\<close> links it never leaves.
\<close>

partial_function (option) ancestorsLoop ::
  "SimulationMaps \<Rightarrow> string option \<Rightarrow> string list \<Rightarrow> string list option" where
  "ancestorsLoop maps current chain =
     (case truthy current of
        None \<Rightarrow> Some chain
      | Some c \<Rightarrow>
          ancestorsLoop maps
            (case nodeById maps c of None \<Rightarrow> None | Some n \<Rightarrow> parentNode n)
            (chain @ [c]))"

declare ancestorsLoop.simps [code]

definition getAncestors :: "string \<Rightarrow> SimulationMaps \<Rightarrow> string list option" where
  "getAncestors nodeId maps = ancestorsLoop maps (Some nodeId) []"

text \<open>
  \<open>evaluateGuard\<close> hands the text \<open>return (guard);\<close> to the host's \<open>new Function\<close> and
  calls the result with an empty context and the event \<open>{type: eventType}\<close>. The host
  is a parameter: from the function body and the event type it tells whether compiling
  or running threw, whether the call never returns (nothing bounds the evaluation of a
  guard), and otherwise the truthiness \<open>Boolean(v)\<close> of the value returned. The guard is
  taken to read its two arguments only, so that the same body on the same event type
  always has the same outcome.
\<close>

datatype js_outcome = Returned bool | Thrown | NeverReturns

type_synonym js_engine = "string \<Rightarrow> string \<Rightarrow> js_outcome"

text \<open>
  The result is \<open>None\<close> when the call of the guard does not return. The \<open>try\<close> block
  catches whatever compiling or calling throws.
\<close>

definition evaluateGuard :: "js_engine \<Rightarrow> string \<Rightarrow> string \<Rightarrow> bool option" where
  "evaluateGuard js g eventType =
     (if trim g = [] then Some True
      else (case js (''return ('' @ g @ '');'') eventType of
              Returned b \<Rightarrow> Some b
            | Thrown \<Rightarrow> Some False
            | NeverReturns \<Rightarrow> None))"

text \<open>
  A sample host for the closed examples. It knows three bodies, the third a call of a
  function whose body is an endless loop; every other text counts as one that does not
  compile.
\<close>

definition hostSample :: js_engine where
  "hostSample body eventType =
     (if body = ''return (true);'' then Returned True
      else if body = ''return (1 === 2);'' then Returned False
      else if body = ''return ((function(){for(;;){}})());'' then NeverReturns
      else Thrown)"

text \<open>
  The callback of \<open>transitions.find\<close>: \<open>&&\<close> asks the guard only where the event is
  the event type.
\<close>

definition edgeMatches :: "js_engine \<Rightarrow> string \<Rightarrow> TransitionEdge \<Rightarrow> bool option" where
  "edgeMatches js eventType e =
     (if event (data_edge e) = eventType then evaluateGuard js (guard (data_edge e)) eventType
      else Some False)"

text \<open>
  \<open>Array.prototype.find\<close> with a callback that may not return: the elements are asked
  in order up to the first that answers true.
\<close>

fun findFirst :: "('a \<Rightarrow> bool option) \<Rightarrow> 'a list \<Rightarrow> 'a option option" where
  "findFirst p [] = Some None"
| "findFirst p (x # xs) =
     (case p x of
        None \<Rightarrow> None
      | Some True \<Rightarrow> Some (Some x)
      | Some False \<Rightarrow> findFirst p xs)"

fun scanAncestors ::
  "js_engine \<Rightarrow> string \<Rightarrow> SimulationMaps \<Rightarrow> string list \<Rightarrow> TransitionEdge option option"
  where
  "scanAncestors js eventType maps [] = Some None"
| "scanAncestors js eventType maps (src # rest) =
     (case findFirst (edgeMatches js eventType) (edgesBySource maps src) of
        None \<Rightarrow> None
      | Some (Some match) \<Rightarrow> Some (Some match)
      | Some None \<Rightarrow> scanAncestors js eventType maps rest)"

definition findTransitionForEvent ::
  "js_engine \<Rightarrow> string \<Rightarrow> string \<Rightarrow> SimulationMaps \<Rightarrow> TransitionEdge option option" where
  "findTransitionForEvent js activeLeaf eventType maps =
     Option.bind (getAncestors activeLeaf maps) (scanAncestors js eventType maps)"

definition initialSimulationState :: "MachineDocument \<Rightarrow> string list option" where
  "initialSimulationState machine =
     (let maps = buildMaps machine
      in case truthy (findInitialTarget None maps) of
           Some rootTarget \<Rightarrow> enterNode rootTarget maps {}
         | None \<Rightarrow>
             (case find (\<lambda>n. truthy (parentNode n) = None \<and> \<not> isMarker n) (nodes machine) of
                Some fallback \<Rightarrow> enterNode (id_node fallback) maps {}
              | None \<Rightarrow> Some []))"

text \<open>
  \<open>getAvailableEvents\<close>. The collation \<open>a.localeCompare(b)\<close> is the host's and is a
  parameter; \<open>Array.prototype.sort\<close> is stable.
\<close>

fun insertSorted :: "(string \<Rightarrow> string \<Rightarrow> int) \<Rightarrow> string \<Rightarrow> string list \<Rightarrow> string list" where
  "insertSorted cmp x [] = [x]"
| "insertSorted cmp x (y # ys) =
     (if cmp x y \<le> 0 then x # y # ys else y # insertSorted cmp x ys)"

definition sortWith :: "(string \<Rightarrow> string \<Rightarrow> int) \<Rightarrow> string list \<Rightarrow> string list" where
  "sortWith cmp xs = foldr (insertSorted cmp) xs []"

definition getAvailableEvents ::
  "(string \<Rightarrow> string \<Rightarrow> int) \<Rightarrow> MachineDocument \<Rightarrow> string list \<Rightarrow> string list option" where
  "getAvailableEvents localeCompare machine activeLeafIds =
     (let maps = buildMaps machine
      in Option.bind (mapM_option (\<lambda>leaf. getAncestors leaf maps) activeLeafIds)
           (\<lambda>ancs.
              Some (sortWith localeCompare
                (setAddAll
                  (filter (\<lambda>ev. ev \<noteq> [])
                    (map (\<lambda>e. trim (event (data_edge e)))
                      (concat (map (edgesBySource maps) (concat ancs)))))))))"

record SimulationStep =
  nextActiveLeafIds :: "string list"
  takenEdgeId :: "string option"

fun triggerLoop ::
  "js_engine \<Rightarrow> SimulationMaps \<Rightarrow> string \<Rightarrow> string list \<Rightarrow> string list \<Rightarrow> SimulationStep option"
  where
  "triggerLoop js maps eventType activeLeafIds [] =
     Some \<lparr>nextActiveLeafIds = activeLeafIds, takenEdgeId = None\<rparr>"
| "triggerLoop js maps eventType activeLeafIds (leaf # rest) =
     (case findTransitionForEvent js leaf eventType maps of
        None \<Rightarrow> None
      | Some None \<Rightarrow> triggerLoop js maps eventType activeLeafIds rest
      | Some (Some transition) \<Rightarrow>
          (case enterNode (target transition) maps {} of
             None \<Rightarrow> None
           | Some nextLeaves \<Rightarrow>
               Some \<lparr>nextActiveLeafIds = nextLeaves, takenEdgeId = Some (id_edge transition)\<rparr>))"

definition triggerSimulationEvent ::
  "js_engine \<Rightarrow> MachineDocument \<Rightarrow> string list \<Rightarrow> string \<Rightarrow> SimulationStep option" where
  "triggerSimulationEvent js machine activeLeafIds eventType =
     triggerLoop js (buildMaps machine) eventType activeLeafIds activeLeafIds"

subsection \<open>The steps of entry\<close>

text \<open>
  The ids \<open>enterNode\<close> calls itself on from a node it has not seen: the target of a
  marker's first edge, every region of a parallel node, the child that
  \<open>findInitialTarget\<close> picks for any other node with real children.
\<close>

definition entrySucc :: "SimulationMaps \<Rightarrow> string \<Rightarrow> string list" where
  "entrySucc maps nodeId =
     (case nodeById maps nodeId of
        None \<Rightarrow> []
      | Some node \<Rightarrow>
          if kind (data_node node) = Initial then
            (case truthy (map_option target (firstOf (edgesBySource maps (id_node node)))) of
               None \<Rightarrow> []
             | Some t \<Rightarrow> [t])
          else
            (let children = realChildren maps (id_node node)
             in if children = [] then []
                else if kind (data_node node) = Parallel then map id_node children
                else
                  (case truthy
                          (case findInitialTarget (Some (id_node node)) maps of
                             Some t \<Rightarrow> Some t
                           | None \<Rightarrow> map_option id_node (firstOf children)) of
                     None \<Rightarrow> []
                   | Some initialTarget \<Rightarrow> [initialTarget])))"

definition entryRel :: "SimulationMaps \<Rightarrow> (string \<times> string) set" where
  "entryRel maps = {(x, y). y \<in> set (entrySucc maps x)}"

text \<open>The node \<open>initialSimulationState\<close> enters, if any.\<close>

definition rootEntry :: "MachineDocument \<Rightarrow> string option" where
  "rootEntry machine =
     (case truthy (findInitialTarget None (buildMaps machine)) of
        Some rootTarget \<Rightarrow> Some rootTarget
      | None \<Rightarrow>
          map_option id_node
            (find (\<lambda>n. truthy (parentNode n) = None \<and> \<not> isMarker n) (nodes machine)))"

definition entryReach :: "MachineDocument \<Rightarrow> string set" where
  "entryReach machine = (entryRel (buildMaps machine))\<^sup>* `` set_option (rootEntry machine)"

text \<open>A leaf of a configuration: a node of kind atomic or final with no real children.\<close>

definition isLeafState :: "SimulationMaps \<Rightarrow> string \<Rightarrow> bool" where
  "isLeafState maps nodeId =
     (case nodeById maps nodeId of
        None \<Rightarrow> False
      | Some node \<Rightarrow>
          (kind (data_node node) = Atomic \<or> kind (data_node node) = Final)
          \<and> realChildren maps (id_node node) = [])"

text \<open>
  What entry needs of a node it reaches: the node exists; a marker has an edge with a
  target; a node without real children is atomic or final; the child picked for a
  compound node has a name.
\<close>

definition entryOk :: "SimulationMaps \<Rightarrow> string \<Rightarrow> bool" where
  "entryOk maps nodeId =
     (case nodeById maps nodeId of
        None \<Rightarrow> False
      | Some node \<Rightarrow>
          if kind (data_node node) = Initial then
            truthy (map_option target (firstOf (edgesBySource maps (id_node node)))) \<noteq> None
          else if realChildren maps (id_node node) = [] then
            kind (data_node node) = Atomic \<or> kind (data_node node) = Final
          else if kind (data_node node) = Parallel then True
          else truthy (findInitialTarget (Some (id_node node)) maps) \<noteq> None)"

text \<open>The \<open>parentNode\<close> links that \<open>getAncestors\<close> follows, as pairs (parent, child).\<close>

definition parentRel :: "SimulationMaps \<Rightarrow> (string \<times> string) set" where
  "parentRel maps =
     {(p, c). \<exists>n. nodeById maps c = Some n \<and> parentNode n = Some p}"

section \<open>The interchange format (\<open>lib/machine-format.ts\<close>)\<close>

subsection \<open>Plain objects\<close>

text \<open>
  A plain object is the list of its own properties in the order \<open>Object.keys\<close>,
  \<open>Object.entries\<close> and \<open>JSON.stringify\<close> visit them: the keys that are array indices
  (canonical decimal numerals below \<open>2^32 - 1\<close>) first, in ascending order, then the other
  keys in the order they were created. Writing an existing key keeps its place.
\<close>

definition isDigit :: "char \<Rightarrow> bool" where
  "isDigit c = (let n = (of_char c :: nat) in 48 \<le> n \<and> n \<le> 57)"

definition decimalValue :: "string \<Rightarrow> nat" where
  "decimalValue s = foldl (\<lambda>acc c. 10 * acc + (of_char c - 48)) 0 s"

definition isArrayIndex :: "string \<Rightarrow> bool" where
  "isArrayIndex s =
     (s \<noteq> [] \<and> list_all isDigit s \<and> (s = ''0'' \<or> take 1 s \<noteq> ''0'')
      \<and> decimalValue s < 4294967295)"

text \<open>The own property of a key, if there is one.\<close>

definition objGet :: "(string \<times> 'v) list \<Rightarrow> string \<Rightarrow> 'v option" where
  "objGet obj k = map_of obj k"

text \<open>
  A plain object inherits from \<open>Object.prototype\<close>. The read \<open>obj[k]\<close> of a key that is
  no own property finds the inherited member where \<open>k\<close> names one: a function, or for
  \<open>__proto__\<close> the object \<open>Object.prototype\<close> itself. None of them is \<open>undefined\<close> or
  \<open>null\<close>, all are truthy, and none has a method \<open>push\<close>.
\<close>

definition objectPrototypeKeys :: "string list" where
  "objectPrototypeKeys =
     [''constructor'', ''__defineGetter__'', ''__defineSetter__'', ''hasOwnProperty'',
      ''__lookupGetter__'', ''__lookupSetter__'', ''isPrototypeOf'', ''propertyIsEnumerable'',
      ''toString'', ''valueOf'', ''__proto__'', ''toLocaleString'']"

datatype 'v lookup = Own 'v | Inherited | Missing

definition objRead :: "(string \<times> 'v) list \<Rightarrow> string \<Rightarrow> 'v lookup" where
  "objRead obj k =
     (case map_of obj k of
        Some v \<Rightarrow> Own v
      | None \<Rightarrow> if k \<in> set objectPrototypeKeys then Inherited else Missing)"

text \<open>What the host raises: the error of \<open>JSON.parse\<close> and the error of a bad access.\<close>

datatype js_error = SyntaxError | TypeError

definition objSet :: "(string \<times> 'v) list \<Rightarrow> string \<Rightarrow> 'v \<Rightarrow> (string \<times> 'v) list" where
  "objSet obj k v =
     (if k \<in> set (map fst obj) then map (\<lambda>(k', v'). if k' = k then (k', v) else (k', v')) obj
      else if isArrayIndex k then
        takeWhile (\<lambda>(k', _). isArrayIndex k' \<and> decimalValue k' < decimalValue k) obj
        @ [(k, v)]
        @ dropWhile (\<lambda>(k', _). isArrayIndex k' \<and> decimalValue k' < decimalValue k) obj
      else obj @ [(k, v)])"

subsection \<open>The nested definition\<close>

text \<open>
  \<open>XStateTransition\<close>, \<open>XStateState\<close> and \<open>XStateRoot\<close>, with every optional field an
  option. The embedded document is what \<open>JSON.parse\<close> hands back, so each field that
  \<open>isMachineDocument\<close> or \<open>normalizeImportedMachine\<close> tests for may be absent.
\<close>

datatype 'a one_or_many = One 'a | Many "'a list"

record XStateTransition =
  target_x :: "string one_or_many option"
  guard_x :: "string option"
  cond_x :: "string option"
  actions_x :: "string one_or_many option"

datatype transition_entry = EntryString string | EntryObject XStateTransition

datatype on_value = OnString string | OnObject XStateTransition | OnArray "transition_entry list"

record ParsedNodeData =
  label_p :: "string option"
  kind_p :: "NodeKind option"

record ParsedNode =
  id_p :: string
  parentNode_p :: "string option"
  data_p :: ParsedNodeData

record ParsedEdgeData =
  event_p :: "string option"
  guard_p :: "string option"
  actions_p :: "string list option"

record ParsedEdge =
  id_pe :: string
  source_p :: string
  target_p :: string
  data_pe :: ParsedEdgeData

record ParsedDocument =
  machineId_p :: "string option"
  nodes_p :: "ParsedNode list option"
  edges_p :: "ParsedEdge list option"

record XStateMeta =
  kind_x :: "NodeKind option"
  fluxState :: "ParsedDocument option"

text \<open>
  The field \<open>initial\<close> is declared a string. The export can also leave a member of
  \<open>Object.prototype\<close> there (see \<open>inheritedInitial\<close> below), and \<open>JSON.stringify\<close>
  writes \<open>Object.prototype\<close> itself as an object without properties; so the field holds a
  key or an object. All that is ever done with the object is to test it, which finds it
  truthy, and to put it into a template literal, which gives \<open>[object Object]\<close>.
\<close>

datatype initial_value = InitialKey string | InitialObject

datatype XStateState =
  XStateState
    (id_x: "string option")
    (type_x: "string option")
    (initial_x: "initial_value option")
    (states_x: "(string \<times> XStateState) list option")
    (on_x: "(string \<times> on_value) list option")
    (meta_x: "XStateMeta option")

subsection \<open>Export\<close>

text \<open>
  A document as plain data, the shape \<open>JSON.parse\<close> gives back: every field of the
  document is there.
\<close>

definition plainNode :: "StateNode \<Rightarrow> ParsedNode" where
  "plainNode n =
     \<lparr>id_p = id_node n, parentNode_p = parentNode n,
      data_p = \<lparr>label_p = Some (label (data_node n)), kind_p = Some (kind (data_node n))\<rparr>\<rparr>"

definition plainEdge :: "TransitionEdge \<Rightarrow> ParsedEdge" where
  "plainEdge e =
     \<lparr>id_pe = id_edge e, source_p = source e, target_p = target e,
      data_pe = \<lparr>event_p = Some (event (data_edge e)), guard_p = Some (guard (data_edge e)),
                 actions_p = Some (actions (data_edge e))\<rparr>\<rparr>"

definition plainDocument :: "MachineDocument \<Rightarrow> ParsedDocument" where
  "plainDocument machine =
     \<lparr>machineId_p = Some (machineId machine),
      nodes_p = Some (map plainNode (nodes machine)),
      edges_p = Some (map plainEdge (edges machine))\<rparr>"

text \<open>
  \<open>toSerializableMachine\<close> is \<open>JSON.parse(JSON.stringify(machine))\<close>: a copy of the
  document as plain data.
\<close>

definition toSerializableMachine :: "MachineDocument \<Rightarrow> ParsedDocument" where
  "toSerializableMachine machine = plainDocument machine"

definition buildChildrenMap :: "StateNode list \<Rightarrow> string option \<Rightarrow> StateNode list" where
  "buildChildrenMap ns = (\<lambda>p. filter (\<lambda>n. parentNode n = p) ns)"

definition buildEdgeMap :: "TransitionEdge list \<Rightarrow> string \<Rightarrow> TransitionEdge list" where
  "buildEdgeMap es = (\<lambda>s. filter (\<lambda>e. source e = s) es)"

definition firstInitialTarget ::
  "string option \<Rightarrow> (string option \<Rightarrow> StateNode list) \<Rightarrow> (string \<Rightarrow> TransitionEdge list)
     \<Rightarrow> string option" where
  "firstInitialTarget parentId childrenMap edgeMap =
     (case find isMarker (childrenMap parentId) of
        None \<Rightarrow> None
      | Some marker \<Rightarrow> map_option target (firstOf (edgeMap (id_node marker))))"

definition toTransitionValue :: "TransitionEdge \<Rightarrow> XStateTransition" where
  "toTransitionValue e =
     (let g = trim (guard (data_edge e));
          acts = filter (\<lambda>entry. trim entry \<noteq> []) (actions (data_edge e))
      in \<lparr>target_x = Some (One (CHR ''#'' # target e)),
          guard_x = (if g \<noteq> [] then Some g else None),
          cond_x = None,
          actions_x =
            (case acts of
               [] \<Rightarrow> None
             | [a] \<Rightarrow> Some (One a)
             | _ \<Rightarrow> Some (Many acts))\<rparr>)"

text \<open>
  The first loop of \<open>buildStatesForParent\<close>: a key for every child. The assignment
  \<open>idToKey[child.id] = key\<close> makes or overwrites an own property, but for the id
  \<open>__proto__\<close>: there it calls the setter of \<open>Object.prototype\<close>, which ignores a string.
\<close>

fun assignKeys ::
  "(string \<Rightarrow> nat option) \<Rightarrow> (string \<times> string) list \<Rightarrow> StateNode list
     \<Rightarrow> (string \<times> string) list" where
  "assignKeys keyCount idToKey [] = idToKey"
| "assignKeys keyCount idToKey (child # rest) =
     (let base = slugify (label (data_node child));
          count = (case keyCount base of None \<Rightarrow> 0 | Some c \<Rightarrow> c)
      in assignKeys (keyCount(base \<mapsto> count + 1))
           (if id_node child = ''__proto__'' then idToKey
            else objSet idToKey (id_node child)
                   (if count = 0 then base else base @ ''_'' @ showNat (count + 1)))
           rest)"

text \<open>
  The transitions of a state grouped by their trimmed event name. \<open>grouped\<close> is a plain
  object: for an event named after a member of \<open>Object.prototype\<close> the first read
  \<open>grouped[eventType] ?? []\<close> is that member, and \<open>existing.push\<close> is no function.
\<close>

fun groupTransitions ::
  "(string \<times> XStateTransition list) list \<Rightarrow> TransitionEdge list
     \<Rightarrow> js_error + (string \<times> XStateTransition list) list" where
  "groupTransitions grouped [] = Inr grouped"
| "groupTransitions grouped (e # rest) =
     (let eventType = trim (event (data_edge e))
      in if eventType = [] then groupTransitions grouped rest
         else (case objRead grouped eventType of
                 Inherited \<Rightarrow> Inl TypeError
               | Own existing \<Rightarrow>
                   groupTransitions
                     (objSet grouped eventType (existing @ [toTransitionValue e])) rest
               | Missing \<Rightarrow>
                   groupTransitions (objSet grouped eventType [toTransitionValue e]) rest))"

definition onOfGrouped :: "(string \<times> XStateTransition list) list \<Rightarrow> (string \<times> on_value) list" where
  "onOfGrouped grouped =
     foldl (\<lambda>on (eventType, entries).
              objSet on eventType
                (case entries of [entry] \<Rightarrow> OnObject entry | _ \<Rightarrow> OnArray (map EntryObject entries)))
       [] grouped"

text \<open>
  A field that was given the inherited member \<open>k\<close>, as \<open>JSON.stringify\<close> writes it: a
  property that holds a function is left out, and \<open>Object.prototype\<close> itself, the value of
  \<open>__proto__\<close>, is written as an object. The definition is only ever handed to
  \<open>JSON.stringify\<close>.
\<close>

definition inheritedInitial :: "string \<Rightarrow> initial_value option" where
  "inheritedInitial k = (if k = ''__proto__'' then Some InitialObject else None)"

text \<open>
  \<open>if (initialTargetId && nested.idToKey[initialTargetId])
  stateConfig.initial = nested.idToKey[initialTargetId]\<close>.
\<close>

definition nestedInitial :: "string option \<Rightarrow> (string \<times> string) list \<Rightarrow> initial_value option" where
  "nestedInitial initialTargetId idToKey =
     (case truthy initialTargetId of
        None \<Rightarrow> None
      | Some t \<Rightarrow>
          (case objRead idToKey t of
             Own key \<Rightarrow> if key = [] then None else Some (InitialKey key)
           | Inherited \<Rightarrow> inheritedInitial t
           | Missing \<Rightarrow> None))"

text \<open>
  The body of the second loop after the recursive call: the definition of one child,
  given its nested states. It raises what \<open>groupTransitions\<close> raises.
\<close>

definition stateConfigOf ::
  "MachineDocument \<Rightarrow> StateNode \<Rightarrow> (string \<times> XStateState) list \<times> (string \<times> string) list
     \<Rightarrow> js_error + XStateState" where
  "stateConfigOf machine child nested =
     (let childrenMap = buildChildrenMap (nodes machine);
          edgeMap = buildEdgeMap (edges machine);
          ty = (if kind (data_node child) = Parallel then Some ''parallel''
                else if kind (data_node child) = Final then Some ''final''
                else None);
          initialValue =
            (if ty \<noteq> Some ''parallel'' then
               nestedInitial (firstInitialTarget (Some (id_node child)) childrenMap edgeMap)
                 (snd nested)
             else None)
      in case groupTransitions [] (edgeMap (id_node child)) of
           Inl err \<Rightarrow> Inl err
         | Inr grouped \<Rightarrow>
             Inr (XStateState
                    (Some (id_node child))
                    ty
                    initialValue
                    (if fst nested \<noteq> [] then Some (fst nested) else None)
                    (if grouped \<noteq> [] then Some (onOfGrouped grouped) else None)
                    (Some \<lparr>kind_x = Some (kind (data_node child)), fluxState = None\<rparr>)))"

text \<open>
  \<open>const key = idToKey[child.id]\<close>, used as the property key in \<open>states[key]\<close>. Every
  child id but \<open>__proto__\<close> is an own property after the first loop; for \<open>__proto__\<close> the
  read gives \<open>Object.prototype\<close>, which as a property key is \<open>[object Object]\<close>.
\<close>

definition stateKeyOf :: "(string \<times> string) list \<Rightarrow> StateNode \<Rightarrow> string" where
  "stateKeyOf idToKey child =
     (case objRead idToKey (id_node child) of
        Own key \<Rightarrow> key
      | Inherited \<Rightarrow> ''[object Object]''
      | Missing \<Rightarrow> ''undefined'')"

text \<open>Iterating in order, stopping at the first that raises or does not return.\<close>

fun mapM_raising :: "('a \<Rightarrow> (js_error + 'b) option) \<Rightarrow> 'a list \<Rightarrow> (js_error + 'b list) option" where
  "mapM_raising f [] = Some (Inr [])"
| "mapM_raising f (x # xs) =
     Option.bind (f x)
       (\<lambda>r. case r of
              Inl err \<Rightarrow> Some (Inl err)
            | Inr y \<Rightarrow>
                Option.bind (mapM_raising f xs)
                  (\<lambda>rs. Some (case rs of Inl err \<Rightarrow> Inl err | Inr ys \<Rightarrow> Inr (y # ys))))"

lemma mapM_raising_mono [partial_function_mono]:
  assumes "\<And>x. mono_option (\<lambda>f. B f x)"
  shows "mono_option (\<lambda>f. mapM_raising (B f) xs)"
proof (induction xs)
  case Nil
  show ?case by (simp add: option.const_mono)
next
  case (Cons x xs)
  show ?case
    unfolding mapM_raising.simps
  proof (rule bind_mono[OF assms])
    fix r
    show "mono_option
            (\<lambda>f. case r of
                   Inl err \<Rightarrow> Some (Inl err)
                 | Inr y \<Rightarrow>
                     Option.bind (mapM_raising (B f) xs)
                       (\<lambda>rs. Some (case rs of Inl err \<Rightarrow> Inl err | Inr ys \<Rightarrow> Inr (y # ys))))"
      by (cases r) (auto intro!: bind_mono Cons option.const_mono)
  qed
qed

text \<open>
  \<open>buildStatesForParent\<close>: the states of the children of a parent and the key of each
  child id. \<open>None\<close> when the recursion does not return, \<open>Inl\<close> when it raises.
\<close>

partial_function (option) buildStatesForParent ::
  "MachineDocument \<Rightarrow> string option
     \<Rightarrow> (js_error + (string \<times> XStateState) list \<times> (string \<times> string) list) option" where
  "buildStatesForParent machine parentId =
     (let children = filter (\<lambda>n. \<not> isMarker n) (buildChildrenMap (nodes machine) parentId);
          idToKey = assignKeys Map.empty [] children
      in Option.bind
           (mapM_raising
              (\<lambda>child.
                 Option.bind (buildStatesForParent machine (Some (id_node child)))
                   (\<lambda>r. Some (case r of
                                Inl err \<Rightarrow> Inl err
                              | Inr nested \<Rightarrow>
                                  (case stateConfigOf machine child nested of
                                     Inl err \<Rightarrow> Inl err
                                   | Inr stateConfig \<Rightarrow> Inr (child, stateConfig)))))
              children)
           (\<lambda>r. Some (case r of
                        Inl err \<Rightarrow> Inl err
                      | Inr configs \<Rightarrow>
                          Inr (foldl (\<lambda>states (child, stateConfig).
                                        objSet states (stateKeyOf idToKey child) stateConfig)
                                 [] configs,
                               idToKey))))"

text \<open>
  The same equation with the childless case set apart, for evaluation: unfolding stops
  at a parent without children.
\<close>

lemma buildStatesForParent_code [code]:
  "buildStatesForParent machine parentId =
     (let children = filter (\<lambda>n. \<not> isMarker n) (buildChildrenMap (nodes machine) parentId)
      in if children = [] then Some (Inr ([], []))
         else
           (let idToKey = assignKeys Map.empty [] children
            in Option.bind
                 (mapM_raising
                    (\<lambda>child.
                       Option.bind (buildStatesForParent machine (Some (id_node child)))
                         (\<lambda>r. Some (case r of
                                      Inl err \<Rightarrow> Inl err
                                    | Inr nested \<Rightarrow>
                                        (case stateConfigOf machine child nested of
                                           Inl err \<Rightarrow> Inl err
                                         | Inr stateConfig \<Rightarrow> Inr (child, stateConfig)))))
                    children)
                 (\<lambda>r. Some (case r of
                              Inl err \<Rightarrow> Inl err
                            | Inr configs \<Rightarrow>
                                Inr (foldl (\<lambda>states (child, stateConfig).
                                              objSet states (stateKeyOf idToKey child) stateConfig)
                                       [] configs,
                                     idToKey)))))"
  by (subst buildStatesForParent.simps) (simp add: Let_def)

text \<open>
  \<open>buildRootState\<close>. The fallback to the first state key is the \<open>else\<close> of the test
  \<open>rootInitialTarget && root.idToKey[rootInitialTarget]\<close>, which an inherited member
  passes.
\<close>

definition rootInitial ::
  "string option \<Rightarrow> (string \<times> XStateState) list \<times> (string \<times> string) list
     \<Rightarrow> initial_value option" where
  "rootInitial rootInitialTarget root =
     (let fallback = map_option InitialKey (truthy (map_option fst (firstOf (fst root))))
      in case truthy rootInitialTarget of
           None \<Rightarrow> fallback
         | Some t \<Rightarrow>
             (case objRead (snd root) t of
                Own key \<Rightarrow> if key = [] then fallback else Some (InitialKey key)
              | Inherited \<Rightarrow> inheritedInitial t
              | Missing \<Rightarrow> fallback))"

definition buildRootState :: "MachineDocument \<Rightarrow> (js_error + XStateState) option" where
  "buildRootState machine =
     Option.bind (buildStatesForParent machine None)
       (\<lambda>r. Some (case r of
                    Inl err \<Rightarrow> Inl err
                  | Inr root \<Rightarrow>
                      Inr (XStateState
                             (Some (machineId machine))
                             None
                             (rootInitial
                                (firstInitialTarget None (buildChildrenMap (nodes machine))
                                   (buildEdgeMap (edges machine)))
                                root)
                             (Some (fst root))
                             None
                             (Some \<lparr>kind_x = None,
                                    fluxState = Some (toSerializableMachine machine)\<rparr>))))"

text \<open>
  \<open>exportMachineAsXState\<close>. \<open>JSON.stringify\<close> is the host's and is a parameter; the text
  it makes is only ever handed to \<open>JSON.parse\<close>, so its type is left open.
\<close>

definition exportMachineAsXState ::
  "(XStateState \<Rightarrow> 'text) \<Rightarrow> MachineDocument \<Rightarrow> (js_error + 'text) option" where
  "exportMachineAsXState stringify machine =
     map_option (map_sum id stringify) (buildRootState machine)"

subsection \<open>Import\<close>

text \<open>
  What \<open>JSON.parse\<close> makes of a text, when it makes something: \<open>null\<close>; a number, a
  string, a Boolean or an array, on which every property the import reads is \<open>undefined\<close>;
  or an object, read at the declared type \<open>XStateRoot\<close> (with the field \<open>initial\<close>
  as described above).
\<close>

datatype parsed_json = JsonNull | JsonOther | JsonObject XStateState

definition isMachineDocument :: "ParsedDocument option \<Rightarrow> bool" where
  "isMachineDocument v =
     (case v of
        None \<Rightarrow> False
      | Some candidate \<Rightarrow>
          nodes_p candidate \<noteq> None \<and> edges_p candidate \<noteq> None \<and> machineId_p candidate \<noteq> None)"

definition normalizeNode :: "ParsedNode \<Rightarrow> StateNode" where
  "normalizeNode n =
     \<lparr>id_node = id_p n, parentNode = parentNode_p n,
      data_node =
        \<lparr>label = (case label_p (data_p n) of Some l \<Rightarrow> l | None \<Rightarrow> id_p n),
         kind = (case kind_p (data_p n) of Some k \<Rightarrow> k | None \<Rightarrow> Atomic)\<rparr>\<rparr>"

definition normalizeEdge :: "ParsedEdge \<Rightarrow> TransitionEdge" where
  "normalizeEdge e =
     \<lparr>id_edge = id_pe e, source = source_p e, target = target_p e,
      data_edge =
        \<lparr>event = (case event_p (data_pe e) of Some ev \<Rightarrow> ev | None \<Rightarrow> ''EVENT''),
         guard = (case guard_p (data_pe e) of Some g \<Rightarrow> g | None \<Rightarrow> []),
         actions = (case actions_p (data_pe e) of Some a \<Rightarrow> a | None \<Rightarrow> [])\<rparr>\<rparr>"

text \<open>
  \<open>normalizeImportedMachine\<close>. Mapping over an absent \<open>nodes\<close> or \<open>edges\<close> is a
  \<open>TypeError\<close>; the callers rule it out.
\<close>

definition normalizeImportedMachine :: "ParsedDocument \<Rightarrow> js_error + MachineDocument" where
  "normalizeImportedMachine machine =
     (case (nodes_p machine, edges_p machine) of
        (Some ns, Some es) \<Rightarrow>
          Inr \<lparr>machineId =
                 (case truthy (machineId_p machine) of Some i \<Rightarrow> i | None \<Rightarrow> ''importedMachine''),
               nodes = map normalizeNode ns,
               edges = map normalizeEdge es\<rparr>
      | _ \<Rightarrow> Inl TypeError)"

text \<open>
  \<open>createId\<close> of \<open>lib/ids.ts\<close>: the module's counter is threaded through, and the
  clock is a parameter that gives \<open>Date.now()\<close> at the call that makes the counter \<open>n\<close>.
\<close>

definition createId :: "(nat \<Rightarrow> nat) \<Rightarrow> string \<Rightarrow> nat \<Rightarrow> string \<times> nat" where
  "createId now prefix counter =
     (prefix @ ''_'' @ showRadix 36 (now (counter + 1)) @ ''_'' @ showRadix 36 (counter + 1),
      counter + 1)"

text \<open>
  The state of the reconstruction: the two arrays, the \<open>pathToId\<close> map and the counter
  of \<open>createId\<close>. (\<open>idToPath\<close> is written and never read.)
\<close>

record ImportState =
  nodes_i :: "StateNode list"
  edges_i :: "TransitionEdge list"
  pathToId :: "string \<Rightarrow> string option"
  idCounter :: nat

definition joinPath :: "string \<Rightarrow> string \<Rightarrow> string" where
  "joinPath parentPath key = (if parentPath = [] then key else parentPath @ ''.'' @ key)"

definition idOrPath :: "XStateState \<Rightarrow> string \<Rightarrow> string" where
  "idOrPath config path = (case truthy (id_x config) of Some i \<Rightarrow> i | None \<Rightarrow> path)"

definition createNode ::
  "string \<Rightarrow> XStateState \<Rightarrow> string option \<Rightarrow> string \<Rightarrow> ImportState \<Rightarrow> ImportState" where
  "createNode key config parentId path st =
     (let node =
            \<lparr>id_node = idOrPath config path, parentNode = parentId,
             data_node =
               \<lparr>label = key,
                kind = (if type_x config = Some ''final'' then Final
                        else if type_x config = Some ''parallel'' then Parallel
                        else Atomic)\<rparr>\<rparr>
      in st\<lparr>nodes_i := nodes_i st @ [node],
            pathToId := (pathToId st)(path \<mapsto> idOrPath config path)\<rparr>)"

lemma size_states_x:
  "states_x config = Some sub \<Longrightarrow> size_list (size_prod (\<lambda>_. 0) size) sub < size config"
  by (cases config) simp

function walkStates ::
  "(string \<times> XStateState) list \<Rightarrow> string option \<Rightarrow> string \<Rightarrow> ImportState \<Rightarrow> ImportState" where
  "walkStates [] parentId parentPath st = st"
| "walkStates ((key, config) # rest) parentId parentPath st =
     (let path = joinPath parentPath key;
          st1 = createNode key config parentId path st;
          st2 = (case states_x config of
                   None \<Rightarrow> st1
                 | Some sub \<Rightarrow> walkStates sub (Some (idOrPath config path)) path st1)
      in walkStates rest parentId parentPath st2)"
  by pat_completeness auto
termination
  by (relation "measure (\<lambda>(sts, _, _, _). size_list (size_prod (\<lambda>_. 0) size) sts)")
    (auto dest: size_states_x)

text \<open>
  \<open>config.initial\<close> as a condition, and as the key that \<open>createInitialMarker\<close> looks
  up: \<open>parentPath ? `${parentPath}.${initialKey}` : initialKey\<close>. An object in place of
  the key is truthy; it becomes \<open>[object Object]\<close> in the template literal, and by itself
  it is no key of the map \<open>pathToId\<close>.
\<close>

definition truthyInitial :: "initial_value option \<Rightarrow> initial_value option" where
  "truthyInitial v =
     (case v of
        Some (InitialKey s) \<Rightarrow> if s = [] then None else Some (InitialKey s)
      | Some InitialObject \<Rightarrow> Some InitialObject
      | None \<Rightarrow> None)"

definition initialTargetId ::
  "(string \<Rightarrow> string option) \<Rightarrow> string \<Rightarrow> initial_value \<Rightarrow> string option" where
  "initialTargetId paths parentPath initialKey =
     (case initialKey of
        InitialKey s \<Rightarrow> paths (joinPath parentPath s)
      | InitialObject \<Rightarrow>
          if parentPath = [] then None else paths (parentPath @ ''.'' @ ''[object Object]''))"

definition createInitialMarker ::
  "(nat \<Rightarrow> nat) \<Rightarrow> string option \<Rightarrow> string \<Rightarrow> initial_value \<Rightarrow> ImportState \<Rightarrow> ImportState" where
  "createInitialMarker now parentId parentPath initialKey st =
     (case truthy (initialTargetId (pathToId st) parentPath initialKey) of
        None \<Rightarrow> st
      | Some targetId \<Rightarrow>
          (let (markerId, c1) =
                 createId now
                   (if truthy parentId \<noteq> None then ''initial_child'' else ''initial_root'')
                   (idCounter st);
               (edgeId, c2) = createId now ''edge'' c1
           in st\<lparr>nodes_i := nodes_i st
                    @ [\<lparr>id_node = markerId, parentNode = parentId,
                        data_node = \<lparr>label = ''Initial'', kind = Initial\<rparr>\<rparr>],
                 edges_i := edges_i st
                    @ [\<lparr>id_edge = edgeId, source = markerId, target = targetId,
                        data_edge = \<lparr>event = ''INIT'', guard = [], actions = []\<rparr>\<rparr>],
                 idCounter := c2\<rparr>))"

definition readActions :: "string one_or_many option \<Rightarrow> string list" where
  "readActions v =
     (case v of
        None \<Rightarrow> []
      | Some (One s) \<Rightarrow> if s = [] then [] else [s]
      | Some (Many xs) \<Rightarrow> xs)"

definition normalizeTransitions :: "on_value \<Rightarrow> XStateTransition list" where
  "normalizeTransitions v =
     (case v of
        OnArray es \<Rightarrow>
          map (\<lambda>entry.
                 case entry of
                   EntryString s \<Rightarrow>
                     \<lparr>target_x = Some (One s), guard_x = None, cond_x = None, actions_x = None\<rparr>
                 | EntryObject t \<Rightarrow> t)
            es
      | OnString s \<Rightarrow>
          [\<lparr>target_x = Some (One s), guard_x = None, cond_x = None, actions_x = None\<rparr>]
      | OnObject t \<Rightarrow> [t])"

text \<open>\<open>currentPath.slice(0, currentPath.lastIndexOf('.'))\<close>, for a path with a dot.\<close>

definition beforeLastDot :: "string \<Rightarrow> string" where
  "beforeLastDot s = rev (drop 1 (dropWhile (\<lambda>c. c \<noteq> CHR ''.'') (rev s)))"

definition resolveTarget ::
  "string \<Rightarrow> string \<Rightarrow> (string \<Rightarrow> string option) \<Rightarrow> string set \<Rightarrow> string option" where
  "resolveTarget tgt currentPath paths idSet =
     (if tgt = [] then None
      else if take 1 tgt = ''#'' then
        (if drop 1 tgt \<in> idSet then Some (drop 1 tgt) else None)
      else if paths tgt \<noteq> None then paths tgt
      else
        (let parentPath =
               (if CHR ''.'' \<in> set currentPath then beforeLastDot currentPath else []);
             candidate = joinPath parentPath tgt;
             localChildCandidate = currentPath @ ''.'' @ tgt
         in if paths candidate \<noteq> None then paths candidate
            else if paths localChildCandidate \<noteq> None then paths localChildCandidate
            else None))"

definition targetsOf :: "XStateTransition \<Rightarrow> string list" where
  "targetsOf transition =
     (case target_x transition of
        Some (Many ts) \<Rightarrow> ts
      | Some (One t) \<Rightarrow> if t = [] then [] else [t]
      | None \<Rightarrow> [])"

text \<open>The three inner loops of \<open>walkTransitions\<close>, innermost first.\<close>

definition addTargetEdge ::
  "(nat \<Rightarrow> nat) \<Rightarrow> string set \<Rightarrow> string \<Rightarrow> string \<Rightarrow> string \<Rightarrow> XStateTransition
     \<Rightarrow> ImportState \<Rightarrow> string \<Rightarrow> ImportState" where
  "addTargetEdge now idSet sourceId statePath eventType transition st tgt =
     (case truthy (resolveTarget tgt statePath (pathToId st) idSet) of
        None \<Rightarrow> st
      | Some resolvedTarget \<Rightarrow>
          (let (edgeId, c) = createId now ''edge'' (idCounter st)
           in st\<lparr>edges_i := edges_i st
                    @ [\<lparr>id_edge = edgeId, source = sourceId, target = resolvedTarget,
                        data_edge =
                          \<lparr>event = eventType,
                           guard = (case guard_x transition of
                                      Some g \<Rightarrow> g
                                    | None \<Rightarrow> (case cond_x transition of Some g \<Rightarrow> g | None \<Rightarrow> [])),
                           actions = readActions (actions_x transition)\<rparr>\<rparr>],
                 idCounter := c\<rparr>))"

definition addEventEdges ::
  "(nat \<Rightarrow> nat) \<Rightarrow> string set \<Rightarrow> string \<Rightarrow> string \<Rightarrow> ImportState \<Rightarrow> string \<times> on_value
     \<Rightarrow> ImportState" where
  "addEventEdges now idSet sourceId statePath st entry =
     foldl (\<lambda>st1 transition.
              foldl (addTargetEdge now idSet sourceId statePath (fst entry) transition) st1
                (targetsOf transition))
       st (normalizeTransitions (snd entry))"

function walkTransitions ::
  "(nat \<Rightarrow> nat) \<Rightarrow> string set \<Rightarrow> (string \<times> XStateState) list \<Rightarrow> string \<Rightarrow> ImportState
     \<Rightarrow> ImportState" where
  "walkTransitions now idSet [] parentPath st = st"
| "walkTransitions now idSet ((key, config) # rest) parentPath st =
     (let statePath = joinPath parentPath key
      in case truthy (pathToId st statePath) of
           None \<Rightarrow> walkTransitions now idSet rest parentPath st
         | Some sourceId \<Rightarrow>
             (let st1 = (case truthyInitial (initial_x config) of
                           None \<Rightarrow> st
                         | Some initialKey \<Rightarrow>
                             createInitialMarker now (Some sourceId) statePath initialKey st);
                  st2 = foldl (addEventEdges now idSet sourceId statePath) st1
                          (case on_x config of None \<Rightarrow> [] | Some on \<Rightarrow> on);
                  st3 = (case states_x config of
                           None \<Rightarrow> st2
                         | Some sub \<Rightarrow> walkTransitions now idSet sub statePath st2)
              in walkTransitions now idSet rest parentPath st3))"
  by pat_completeness auto
termination
  by (relation "measure (\<lambda>(_, _, sts, _, _). size_list (size_prod (\<lambda>_. 0) size) sts)")
    (auto dest: size_states_x)

text \<open>The second path of the import: the document rebuilt from the nested definition.\<close>

definition reconstructMachine ::
  "(nat \<Rightarrow> nat) \<Rightarrow> XStateState \<Rightarrow> nat \<Rightarrow> (js_error + MachineDocument) \<times> nat" where
  "reconstructMachine now parsed counter =
     (let sts = (case states_x parsed of None \<Rightarrow> [] | Some s \<Rightarrow> s);
          st0 = \<lparr>nodes_i = [], edges_i = [], pathToId = Map.empty, idCounter = counter\<rparr>;
          st1 = walkStates sts None [] st0;
          idSet = set (map id_node (nodes_i st1));
          st2 = (case truthyInitial (initial_x parsed) of
                   None \<Rightarrow> st1
                 | Some initialKey \<Rightarrow> createInitialMarker now None [] initialKey st1);
          st3 = walkTransitions now idSet sts [] st2
      in (normalizeImportedMachine
            (plainDocument
               \<lparr>machineId = (case truthy (id_x parsed) of Some i \<Rightarrow> i | None \<Rightarrow> ''importedMachine''),
                nodes = nodes_i st3, edges = edges_i st3\<rparr>),
          idCounter st3))"

text \<open>
  \<open>importMachineFromXState\<close>. \<open>JSON.parse\<close> is the host's and is a parameter: \<open>None\<close>
  is its \<open>SyntaxError\<close>. Reading \<open>parsed.meta\<close> of \<open>null\<close> is a \<open>TypeError\<close>. The result
  comes with the counter of \<open>createId\<close> after the call.
\<close>

definition importMachineFromXState ::
  "('text \<Rightarrow> parsed_json option) \<Rightarrow> (nat \<Rightarrow> nat) \<Rightarrow> 'text \<Rightarrow> nat
     \<Rightarrow> (js_error + MachineDocument) \<times> nat" where
  "importMachineFromXState parse now raw counter =
     (case parse raw of
        None \<Rightarrow> (Inl SyntaxError, counter)
      | Some JsonNull \<Rightarrow> (Inl TypeError, counter)
      | Some v \<Rightarrow>
          (let parsed = (case v of
                           JsonObject r \<Rightarrow> r
                         | _ \<Rightarrow> XStateState None None None None None None);
               embedded = (case meta_x parsed of None \<Rightarrow> None | Some meta \<Rightarrow> fluxState meta)
           in case (if isMachineDocument embedded then embedded else None) of
                Some machine \<Rightarrow> (normalizeImportedMachine machine, counter)
              | None \<Rightarrow> reconstructMachine now parsed counter))"

text \<open>
  The text model of the closed examples: a text is what \<open>JSON.parse\<close> makes of it
  (\<open>None\<close> for a text that is no JSON), and \<open>JSON.stringify\<close> of a definition is the
  text that parses to it.
\<close>

definition parseSample :: "parsed_json option \<Rightarrow> parsed_json option" where
  "parseSample raw = raw"

definition stringifySample :: "XStateState \<Rightarrow> parsed_json option" where
  "stringifySample root = Some (JsonObject root)"

subsection \<open>Reading an exported definition\<close>

text \<open>The links from a parent id to the ids of its children, as the export follows them.\<close>

definition parentLinks :: "MachineDocument \<Rightarrow> (string \<times> string) set" where
  "parentLinks machine =
     {(p, c). \<exists>n \<in> set (nodes machine). parentNode n = Some p \<and> id_node n = c}"

definition embeddedOf :: "XStateState \<Rightarrow> ParsedDocument option" where
  "embeddedOf root = (case meta_x root of None \<Rightarrow> None | Some meta \<Rightarrow> fluxState meta)"

definition childState :: "XStateState \<Rightarrow> string \<Rightarrow> XStateState option" where
  "childState st key = (case states_x st of None \<Rightarrow> None | Some sts \<Rightarrow> objGet sts key)"

definition stateKeys :: "XStateState \<Rightarrow> (string \<times> string option) list" where
  "stateKeys st =
     (case states_x st of None \<Rightarrow> [] | Some sts \<Rightarrow> map (\<lambda>(key, config). (key, id_x config)) sts)"


definition unnamedMachine :: MachineDocument where
  "unnamedMachine = trafficLightMachine\<lparr>machineId := []\<rparr>"

definition prototypeEventMachine :: MachineDocument where
  "prototypeEventMachine =
     \<lparr>machineId = ''inherited'',
      nodes = [mkNode ''a'' ''A'' Atomic None, mkNode ''b'' ''B'' Atomic None],
      edges = [mkEdge ''e1'' ''a'' ''b'' ''toString'' [] []]\<rparr>"

definition prototypeIdMachine :: MachineDocument where
  "prototypeIdMachine =
     \<lparr>machineId = ''proto'',
      nodes =
        [mkNode ''i0'' ''Initial'' Initial None,
         mkNode ''a'' ''A'' Atomic None,
         mkNode ''__proto__'' ''B'' Atomic None,
         mkNode ''i1'' ''Initial'' Initial (Some ''a'')],
      edges =
        [mkEdge ''e0'' ''i0'' ''toString'' ''INIT'' [] [],
         mkEdge ''e1'' ''i1'' ''__proto__'' ''INIT'' [] []]\<rparr>"

definition repeatedLabelMachine :: MachineDocument where
  "repeatedLabelMachine =
     \<lparr>machineId = ''repeated'',
      nodes =
        [mkNode ''n1'' ''a'' Atomic None,
         mkNode ''n2'' ''a'' Atomic None,
         mkNode ''n3'' ''a 2'' Atomic None],
      edges = []\<rparr>"

section \<open>Properties of the simulation\<close>

subsection \<open>Termination\<close>

lemma mapM_option_Some:
  "(\<And>x. x \<in> set xs \<Longrightarrow> \<exists>y. f x = Some y) \<Longrightarrow> \<exists>ys. mapM_option f xs = Some ys"
proof (induction xs)
  case Nil
  show ?case by simp
next
  case (Cons x xs)
  obtain y where y: "f x = Some y" using Cons.prems[of x] by auto
  obtain ys where ys: "mapM_option f xs = Some ys" using Cons.IH Cons.prems by auto
  show ?case by (simp add: y ys)
qed

lemma finite_dom_nodeById: "finite (dom (nodeById (buildMaps machine)))"
  by (simp add: buildMaps_def finite_dom_map_of)

lemma enterNode_returns_aux:
  fixes maps :: SimulationMaps
  assumes fin: "finite (dom (nodeById maps))"
  shows "card (dom (nodeById maps) - seen) = k \<Longrightarrow> \<exists>ls. enterNode nodeId maps seen = Some ls"
proof (induction k arbitrary: nodeId seen rule: less_induct)
  case (less k)
  show ?case
  proof (cases "nodeId \<in> seen")
    case True
    then show ?thesis by (subst enterNode.simps) simp
  next
    case False
    show ?thesis
    proof (cases "nodeById maps nodeId")
      case None
      with False show ?thesis by (subst enterNode.simps) simp
    next
      case (Some node)
      have mem: "nodeId \<in> dom (nodeById maps) - seen" using Some False by auto
      have "dom (nodeById maps) - insert nodeId seen = (dom (nodeById maps) - seen) - {nodeId}"
        by auto
      moreover have "finite (dom (nodeById maps) - seen)" using fin by simp
      ultimately have lt: "card (dom (nodeById maps) - insert nodeId seen) < k"
        using mem less.prems by (metis card_Diff1_less)
      have IH: "\<exists>ls. enterNode n maps (insert nodeId seen) = Some ls" for n
        using less.IH[OF lt refl] .
      have par: "\<exists>ys. mapM_option (\<lambda>child. enterNode (id_node child) maps (insert nodeId seen)) cs = Some ys" for cs
        by (rule mapM_option_Some) (rule IH)
      show ?thesis
      proof (cases "kind (data_node node) = Parallel")
        case True
        obtain ys where ys: "mapM_option (\<lambda>child. enterNode (id_node child) maps (insert nodeId seen)) (realChildren maps (id_node node)) = Some ys"
          using par by blast
        show ?thesis
          apply (subst enterNode.simps)
          using ys by (simp add: False Some True Let_def)
      next
        case notPar: False
        show ?thesis
          apply (subst enterNode.simps)
          using IH
          by (simp add: False Some notPar Let_def split: list.splits option.splits)
      qed
    qed
  qed
qed

lemma enterNode_returns: "\<exists>ls. enterNode nodeId (buildMaps machine) seen = Some ls"
  using enterNode_returns_aux[OF finite_dom_nodeById refl] .

lemma initialSimulationState_returns: "\<exists>ls. initialSimulationState machine = Some ls"
  unfolding initialSimulationState_def Let_def
  using enterNode_returns by (auto split: option.splits)

lemma ancestorsLoop_on_cycle:
  fixes maps :: SimulationMaps
  assumes closed: "\<And>c. c \<in> S \<Longrightarrow> c \<noteq> [] \<and> (\<exists>n p. nodeById maps c = Some n \<and> parentNode n = Some p \<and> p \<in> S)"
    and c: "c \<in> S"
  shows "ancestorsLoop maps (Some c) chain = None"
proof (rule ccontr)
  assume "ancestorsLoop maps (Some c) chain \<noteq> None"
  then obtain r where r: "ancestorsLoop maps (Some c) chain = Some r" by auto
  have "\<not> (maps = maps \<and> (\<exists>d\<in>S. Some c = Some d))"
  proof (rule ancestorsLoop.raw_induct[where P = "\<lambda>m cur ch y. \<not> (m = maps \<and> (\<exists>d\<in>S. cur = Some d))", OF _ r])
    fix f m cur ch y
    assume IH: "\<And>cur ch b y. f cur ch b = Some y \<Longrightarrow> \<not> (cur = maps \<and> (\<exists>d\<in>S. ch = Some d))"
      and step: "(case truthy cur of None \<Rightarrow> Some ch
                  | Some c \<Rightarrow> f m (case nodeById m c of None \<Rightarrow> None | Some n \<Rightarrow> parentNode n) (ch @ [c])) = Some y"
    show "\<not> (m = maps \<and> (\<exists>d\<in>S. cur = Some d))"
    proof
      assume a: "m = maps \<and> (\<exists>d\<in>S. cur = Some d)"
      then obtain d where d: "d \<in> S" "cur = Some d" "m = maps" by auto
      from closed[OF d(1)] obtain n p where np: "d \<noteq> []" "nodeById maps d = Some n" "parentNode n = Some p" "p \<in> S"
        by auto
      from step d np have "f maps (Some p) (ch @ [d]) = Some y" by (simp add: truthy_def)
      from IH[OF this] np(4) show False by auto
    qed
  qed
  with c show False by auto
qed

lemma finite_parentRel: "finite (parentRel (buildMaps machine))"
proof -
  let ?m = "buildMaps machine"
  have "parentRel ?m \<subseteq> (\<lambda>c. (the (parentNode (the (nodeById ?m c))), c)) ` dom (nodeById ?m)"
    by (auto simp: parentRel_def image_iff dom_def)
  then show ?thesis
    by (rule finite_subset) (rule finite_imageI[OF finite_dom_nodeById])
qed

lemma ancestorsLoop_returns:
  fixes maps :: SimulationMaps
  assumes wf: "wf (parentRel maps)"
  shows "\<exists>r. ancestorsLoop maps cur chain = Some r"
proof (cases cur)
  case None
  then show ?thesis by (subst ancestorsLoop.simps) (simp add: truthy_def)
next
  case (Some c)
  have "\<exists>r. ancestorsLoop maps (Some c) chain = Some r" for chain
    using wf
  proof (induction c arbitrary: chain rule: wf_induct_rule)
    case (less c)
    show ?case
    proof (cases "c = []")
      case True
      then show ?thesis by (subst ancestorsLoop.simps) (simp add: truthy_def)
    next
      case False
      show ?thesis
      proof (cases "case nodeById maps c of None \<Rightarrow> None | Some n \<Rightarrow> parentNode n")
        case None
        then show ?thesis
          apply (subst ancestorsLoop.simps)
          apply (simp add: truthy_def False)
          apply (subst ancestorsLoop.simps)
          apply (simp add: truthy_def)
          done
      next
        case (Some p)
        then have "(p, c) \<in> parentRel maps"
          by (auto simp: parentRel_def split: option.splits)
        from less.IH[OF this] Some show ?thesis
          apply (subst ancestorsLoop.simps)
          apply (simp add: truthy_def False)
          done
      qed
    qed
  qed
  with Some show ?thesis by simp
qed

lemma getAncestors_returns:
  assumes "acyclic (parentRel (buildMaps machine))"
  shows "\<exists>r. getAncestors leaf (buildMaps machine) = Some r"
  unfolding getAncestors_def
  by (rule ancestorsLoop_returns) (rule finite_acyclic_wf[OF finite_parentRel assms])

lemma findFirst_append:
  "findFirst p (xs @ ys) =
     (case findFirst p xs of
        None \<Rightarrow> None
      | Some (Some x) \<Rightarrow> Some (Some x)
      | Some None \<Rightarrow> findFirst p ys)"
  by (induction xs) (auto split: option.splits bool.splits)

lemma findFirst_find:
  "(\<And>x. x \<in> set xs \<Longrightarrow> p x \<noteq> None) \<Longrightarrow> findFirst p xs = Some (find (\<lambda>x. p x = Some True) xs)"
  by (induction xs) (auto split: option.splits bool.splits)

lemma findFirst_asked:
  "(\<And>x. x \<in> set (takeWhile (\<lambda>x. p x \<noteq> Some True) xs) \<Longrightarrow> p x \<noteq> None)
     \<Longrightarrow> findFirst p xs = Some (find (\<lambda>x. p x = Some True) xs)"
proof (induction xs)
  case Nil
  show ?case by simp
next
  case (Cons x xs)
  show ?case
  proof (cases "p x = Some True")
    case True
    then show ?thesis by simp
  next
    case False
    then have "p x \<noteq> None" using Cons.prems[of x] by simp
    with False have px: "p x = Some False" by (cases "p x") auto
    have "findFirst p xs = Some (find (\<lambda>x. p x = Some True) xs)"
      by (rule Cons.IH) (use Cons.prems False in auto)
    with px show ?thesis by simp
  qed
qed

lemma findFirst_hangs:
  "x \<in> set (takeWhile (\<lambda>x. p x \<noteq> Some True) xs) \<Longrightarrow> p x = None \<Longrightarrow> findFirst p xs = None"
proof (induction xs)
  case Nil
  then show ?case by simp
next
  case (Cons y ys)
  then show ?case by (cases "p y") (auto split: if_splits bool.splits)
qed

lemma findFirst_none:
  "(\<And>x. x \<in> set xs \<Longrightarrow> p x = Some False) \<Longrightarrow> findFirst p xs = Some None"
  by (induction xs) auto

lemma scanAncestors_findFirst:
  "scanAncestors js ev maps anc
     = findFirst (edgeMatches js ev) (concat (map (edgesBySource maps) anc))"
  by (induction anc) (auto simp: findFirst_append split: option.splits)

lemma triggerLoop_findFirst:
  fixes maps :: SimulationMaps
  assumes "mapM_option (\<lambda>leaf. getAncestors leaf maps) leaves = Some ancs"
  shows "triggerLoop js maps ev cfg leaves =
     (case findFirst (edgeMatches js ev) (concat (map (edgesBySource maps) (concat ancs))) of
        None \<Rightarrow> None
      | Some None \<Rightarrow> Some \<lparr>nextActiveLeafIds = cfg, takenEdgeId = None\<rparr>
      | Some (Some e) \<Rightarrow>
          map_option (\<lambda>ls. \<lparr>nextActiveLeafIds = ls, takenEdgeId = Some (id_edge e)\<rparr>)
            (enterNode (target e) maps {}))"
  using assms
proof (induction leaves arbitrary: ancs)
  case Nil
  then show ?case by simp
next
  case (Cons leaf rest)
  from Cons.prems obtain anc ancs' where
    anc: "getAncestors leaf maps = Some anc" and
    rest: "mapM_option (\<lambda>leaf. getAncestors leaf maps) rest = Some ancs'" and
    ch: "ancs = anc # ancs'"
    by (auto split: Option.bind_splits)
  show ?case
    using Cons.IH[OF rest]
    by (simp add: ch findTransitionForEvent_def anc scanAncestors_findFirst findFirst_append
        split: option.splits)
qed

lemma edgeMatches_returns:
  "(event (data_edge e) = ev \<longrightarrow> evaluateGuard js (guard (data_edge e)) ev \<noteq> None)
     \<Longrightarrow> edgeMatches js ev e \<noteq> None"
  by (auto simp: edgeMatches_def)

lemma edgeMatches_true:
  "(edgeMatches js ev e = Some True)
     = (event (data_edge e) = ev \<and> evaluateGuard js (guard (data_edge e)) ev = Some True)"
  by (simp add: edgeMatches_def)

subsection \<open>Leaves of an entry\<close>

lemma mapM_option_all2:
  "mapM_option f xs = Some ys \<Longrightarrow> list_all2 (\<lambda>x y. f x = Some y) xs ys"
proof (induction xs arbitrary: ys)
  case Nil
  then show ?case by simp
next
  case (Cons x xs)
  then show ?case by (auto split: Option.bind_splits)
qed

lemma mapM_option_set:
  "mapM_option f xs = Some ys \<Longrightarrow> y \<in> set ys \<Longrightarrow> \<exists>x\<in>set xs. f x = Some y"
proof (induction xs arbitrary: ys)
  case Nil
  then show ?case by simp
next
  case (Cons x xs)
  then show ?case by (auto split: Option.bind_splits)
qed

lemma mapM_option_length: "mapM_option f xs = Some ys \<Longrightarrow> length ys = length xs"
proof (induction xs arbitrary: ys)
  case Nil
  then show ?case by simp
next
  case (Cons x xs)
  then show ?case by (auto split: Option.bind_splits)
qed

lemma set_foldl_setAdd: "set (foldl setAdd acc xs) = set acc \<union> set xs"
  by (induction xs arbitrary: acc) (auto simp: setAdd_def)

lemma set_setAddAll: "set (setAddAll xs) = set xs"
  by (simp add: setAddAll_def set_foldl_setAdd)

lemma nodeById_id: "nodeById (buildMaps machine) x = Some n \<Longrightarrow> id_node n = x"
  by (auto simp: buildMaps_def dest!: map_of_SomeD)

lemma enterNode_leaves_aux:
  fixes maps :: SimulationMaps
  assumes fin: "finite (dom (nodeById maps))"
    and ids: "\<And>x n. nodeById maps x = Some n \<Longrightarrow> id_node n = x"
    and acyc: "\<And>x. (r, x) \<in> (entryRel maps)\<^sup>* \<Longrightarrow> (x, x) \<notin> (entryRel maps)\<^sup>+"
    and ok: "\<And>x. (r, x) \<in> (entryRel maps)\<^sup>* \<Longrightarrow> entryOk maps x"
  shows "card (dom (nodeById maps) - seen) = k \<Longrightarrow> (r, x) \<in> (entryRel maps)\<^sup>*
    \<Longrightarrow> (\<And>s. s \<in> seen \<Longrightarrow> (s, x) \<in> (entryRel maps)\<^sup>+)
    \<Longrightarrow> \<exists>ls. enterNode x maps seen = Some ls \<and> ls \<noteq> [] \<and> (\<forall>l\<in>set ls. isLeafState maps l)"
proof (induction k arbitrary: x seen rule: less_induct)
  case (less k)
  let ?R = "entryRel maps"
  have notseen: "x \<notin> seen" using less.prems(3)[of x] acyc[OF less.prems(2)] by blast
  from ok[OF less.prems(2)] obtain node where node: "nodeById maps x = Some node"
    by (auto simp: entryOk_def split: option.splits)
  have idx: "id_node node = x" using ids[OF node] .
  have mem: "x \<in> dom (nodeById maps) - seen" using node notseen by auto
  have "dom (nodeById maps) - insert x seen = (dom (nodeById maps) - seen) - {x}" by auto
  moreover have "finite (dom (nodeById maps) - seen)" using fin by simp
  ultimately have lt: "card (dom (nodeById maps) - insert x seen) < k"
    using mem less.prems(1) by (metis card_Diff1_less)
  have IH: "\<exists>ls. enterNode y maps (insert x seen) = Some ls \<and> ls \<noteq> [] \<and> (\<forall>l\<in>set ls. isLeafState maps l)"
    if y: "y \<in> set (entrySucc maps x)" for y
  proof (rule less.IH[OF lt refl])
    have step: "(x, y) \<in> ?R" using y by (simp add: entryRel_def)
    show "(r, y) \<in> ?R\<^sup>*" using less.prems(2) step by (rule rtrancl_into_rtrancl)
    fix s assume "s \<in> insert x seen"
    then show "(s, y) \<in> ?R\<^sup>+"
      using step less.prems(3) by (auto intro: trancl_into_trancl)
  qed
  have okx: "entryOk maps x" using ok[OF less.prems(2)] .
  show ?case
  proof (cases "kind (data_node node) = Initial")
    case True
    from okx obtain t where t: "truthy (map_option target (firstOf (edgesBySource maps x))) = Some t"
      by (auto simp: entryOk_def node True idx)
    have "t \<in> set (entrySucc maps x)" by (simp add: entrySucc_def node True idx t)
    from IH[OF this] show ?thesis
      by (subst enterNode.simps) (simp add: notseen node True idx t)
  next
    case notInit: False
    show ?thesis
    proof (cases "realChildren maps x = []")
      case True
      with okx have "isLeafState maps x"
        by (auto simp: entryOk_def isLeafState_def node notInit idx)
      then show ?thesis
        by (subst enterNode.simps) (simp add: notseen node notInit idx True)
    next
      case kids: False
      show ?thesis
      proof (cases "kind (data_node node) = Parallel")
        case True
        have succ: "entrySucc maps x = map id_node (realChildren maps x)"
          by (simp add: entrySucc_def node notInit idx kids True)
        have each: "\<exists>ls. enterNode (id_node c) maps (insert x seen) = Some ls \<and> ls \<noteq> [] \<and> (\<forall>l\<in>set ls. isLeafState maps l)"
          if "c \<in> set (realChildren maps x)" for c
          using IH[of "id_node c"] that by (simp add: succ)
        then obtain ys where ys: "mapM_option (\<lambda>child. enterNode (id_node child) maps (insert x seen)) (realChildren maps x) = Some ys"
          using mapM_option_Some[of "realChildren maps x" "\<lambda>child. enterNode (id_node child) maps (insert x seen)"]
          by blast
        have good: "\<forall>y\<in>set ys. y \<noteq> [] \<and> (\<forall>l\<in>set y. isLeafState maps l)"
        proof
          fix y assume "y \<in> set ys"
          from mapM_option_set[OF ys this]
          obtain c where c: "c \<in> set (realChildren maps x)" "enterNode (id_node c) maps (insert x seen) = Some y"
            by blast
          with each[OF c(1)] show "y \<noteq> [] \<and> (\<forall>l\<in>set y. isLeafState maps l)" by auto
        qed
        have "ys \<noteq> []" using mapM_option_length[OF ys] kids by auto
        then obtain y0 where "y0 \<in> set ys" by (cases ys) auto
        with good have ne: "concat ys \<noteq> []" by auto
        have "set (setAddAll (concat ys)) \<noteq> {}" using ne by (simp add: set_setAddAll)
        then have ne': "setAddAll (concat ys) \<noteq> []" by auto
        have "\<forall>l\<in>set (setAddAll (concat ys)). isLeafState maps l"
          using good by (auto simp: set_setAddAll)
        with ne' show ?thesis
          by (subst enterNode.simps) (simp add: notseen node notInit idx kids True ys)
      next
        case notPar: False
        from okx obtain t where t: "truthy (findInitialTarget (Some x) maps) = Some t"
          by (auto simp: entryOk_def node notInit idx kids notPar)
        then have t': "truthy (case findInitialTarget (Some x) maps of Some t \<Rightarrow> Some t
                          | None \<Rightarrow> map_option id_node (firstOf (realChildren maps x))) = Some t"
          by (auto simp: truthy_def split: option.splits)
        have "t \<in> set (entrySucc maps x)"
          by (simp add: entrySucc_def node notInit idx kids notPar t')
        from IH[OF this] show ?thesis
          by (subst enterNode.simps) (simp add: notseen node notInit idx kids notPar t')
      qed
    qed
  qed
qed

lemma initialSimulationState_rootEntry:
  "initialSimulationState machine =
     (case rootEntry machine of
        None \<Rightarrow> Some []
      | Some r \<Rightarrow> enterNode r (buildMaps machine) {})"
  by (simp add: initialSimulationState_def rootEntry_def Let_def split: option.splits)

lemma rootEntry_exists:
  assumes "\<exists>n\<in>set (nodes machine). parentNode n = None \<and> \<not> isMarker n"
  shows "\<exists>r. rootEntry machine = Some r"
proof -
  from assms obtain n where n: "n \<in> set (nodes machine)" "truthy (parentNode n) = None \<and> \<not> isMarker n"
    by (auto simp: truthy_def)
  then have "find (\<lambda>n. truthy (parentNode n) = None \<and> \<not> isMarker n) (nodes machine) \<noteq> None"
    by (auto simp: find_None_iff)
  then show ?thesis by (auto simp: rootEntry_def split: option.splits)
qed

text \<open>
  Claim C3, as the code has it. Take a document with a real root state in which, among
  the nodes entry reaches from the root, no node is reached again from itself and every
  node is fit for entry (\<open>entryOk\<close>: it exists, a marker has an edge with a target, a
  node without real children is atomic or final, the child picked for a compound node
  has a name). Then \<open>initialSimulationState\<close> returns a non-empty list, and every id in
  it names a node of kind atomic or final that has no real children.
\<close>

theorem initial_configuration_leaves:
  assumes root: "\<exists>n\<in>set (nodes machine). parentNode n = None \<and> \<not> isMarker n"
    and acyc: "\<forall>x\<in>entryReach machine. (x, x) \<notin> (entryRel (buildMaps machine))\<^sup>+"
    and ok: "\<forall>x\<in>entryReach machine. entryOk (buildMaps machine) x"
  shows "\<exists>ls. initialSimulationState machine = Some ls \<and> ls \<noteq> []
           \<and> (\<forall>l\<in>set ls. isLeafState (buildMaps machine) l)"
proof -
  obtain r where r: "rootEntry machine = Some r" using rootEntry_exists[OF root] by blast
  have reach: "(r, x) \<in> (entryRel (buildMaps machine))\<^sup>* \<Longrightarrow> x \<in> entryReach machine" for x
    by (auto simp: entryReach_def r)
  have "\<exists>ls. enterNode r (buildMaps machine) {} = Some ls \<and> ls \<noteq> []
           \<and> (\<forall>l\<in>set ls. isLeafState (buildMaps machine) l)"
    by (rule enterNode_leaves_aux[OF finite_dom_nodeById nodeById_id _ _ refl])
      (use acyc ok reach in auto)
  then show ?thesis by (simp add: initialSimulationState_rootEntry r)
qed

lemma nested_entryRel: "entryRel (buildMaps nestedMachine) = {(''p'', ''c1'')}"
  by (auto simp: entryRel_def entrySucc_def buildMaps_def nestedMachine_def mkNode_def
      realChildren_def isMarker_def findInitialTarget_def truthy_def firstOf_def Let_def
      split: if_splits option.splits)

lemma nested_entryReach: "entryReach nestedMachine = {''p'', ''c1''}"
proof -
  have r: "rootEntry nestedMachine = Some ''p''" by code_simp
  show ?thesis
    unfolding entryReach_def r nested_entryRel
    by (auto simp: rtrancl_insert)
qed

text \<open>
  The theorem at a compound state with two children and no marker: entry reaches the
  parent and its first child, and the first child is the configuration.
\<close>

theorem initial_configuration_leaves_witness:
  "(\<exists>n\<in>set (nodes nestedMachine). parentNode n = None \<and> \<not> isMarker n)
   \<and> entryReach nestedMachine = {''p'', ''c1''}
   \<and> (''p'', ''p'') \<notin> (entryRel (buildMaps nestedMachine))\<^sup>+
   \<and> (''c1'', ''c1'') \<notin> (entryRel (buildMaps nestedMachine))\<^sup>+
   \<and> entryOk (buildMaps nestedMachine) ''p'' \<and> entryOk (buildMaps nestedMachine) ''c1''
   \<and> initialSimulationState nestedMachine = Some [''c1'']
   \<and> isLeafState (buildMaps nestedMachine) ''c1''"
proof -
  have h1: "\<exists>n\<in>set (nodes nestedMachine). parentNode n = None \<and> \<not> isMarker n"
    by (simp add: nestedMachine_def mkNode_def isMarker_def)
  have a1: "(''p'', ''p'') \<notin> (entryRel (buildMaps nestedMachine))\<^sup>+"
    and a2: "(''c1'', ''c1'') \<notin> (entryRel (buildMaps nestedMachine))\<^sup>+"
    unfolding nested_entryRel by (auto simp: trancl_insert)
  have o1: "entryOk (buildMaps nestedMachine) ''p''" by code_simp
  have o2: "entryOk (buildMaps nestedMachine) ''c1''" by code_simp
  have h2: "\<forall>x\<in>entryReach nestedMachine. (x, x) \<notin> (entryRel (buildMaps nestedMachine))\<^sup>+"
    unfolding nested_entryReach using a1 a2 by simp
  have h3: "\<forall>x\<in>entryReach nestedMachine. entryOk (buildMaps nestedMachine) x"
    unfolding nested_entryReach using o1 o2 by simp
  have v: "initialSimulationState nestedMachine = Some [''c1'']" by code_simp
  from initial_configuration_leaves[OF h1 h2 h3] v
  have "isLeafState (buildMaps nestedMachine) ''c1''" by simp
  with h1 nested_entryReach a1 a2 o1 o2 v show ?thesis by blast
qed

text \<open>
  A document of one parallel node without regions has a real root state, no
  \<open>parentNode\<close> link and no entry step at all, and its initial configuration is that
  parallel node.
\<close>

theorem lone_parallel_counterexample:
  "(\<exists>n\<in>set (nodes loneParallelMachine). parentNode n = None \<and> \<not> isMarker n)
   \<and> parentRel (buildMaps loneParallelMachine) = {}
   \<and> entryRel (buildMaps loneParallelMachine) = {}
   \<and> initialSimulationState loneParallelMachine = Some [''p'']
   \<and> map_option (\<lambda>n. kind (data_node n)) (nodeById (buildMaps loneParallelMachine) ''p'')
       = Some Parallel"
proof -
  have h1: "\<exists>n\<in>set (nodes loneParallelMachine). parentNode n = None \<and> \<not> isMarker n"
    by (simp add: loneParallelMachine_def mkNode_def isMarker_def)
  have p: "parentRel (buildMaps loneParallelMachine) = {}"
    by (auto simp: parentRel_def buildMaps_def loneParallelMachine_def mkNode_def split: if_splits)
  have e: "entryRel (buildMaps loneParallelMachine) = {}"
    by (auto simp: entryRel_def entrySucc_def buildMaps_def loneParallelMachine_def mkNode_def
      realChildren_def isMarker_def Let_def split: if_splits option.splits)
  have v: "initialSimulationState loneParallelMachine = Some [''p'']" by code_simp
  have k: "map_option (\<lambda>n. kind (data_node n)) (nodeById (buildMaps loneParallelMachine) ''p'')
       = Some Parallel" by code_simp
  from h1 p e v k show ?thesis by blast
qed

lemma getAncestors_on_cycle:
  assumes "\<And>c. c \<in> S \<Longrightarrow> c \<noteq> [] \<and> (\<exists>n p. nodeById maps c = Some n \<and> parentNode n = Some p \<and> p \<in> S)"
    and "leaf \<in> S"
  shows "getAncestors leaf maps = None"
  unfolding getAncestors_def using assms by (rule ancestorsLoop_on_cycle)

subsection \<open>Resolving an event\<close>

text \<open>
  Claim C2, as the code has it. Take a configuration in which the ancestor walk of
  every active leaf ends, and scan the edges that leave the active leaves and their
  ancestors in the order leaves of the configuration / ancestors from the leaf upward /
  outgoing edges as declared. An edge fires when its event equals the event type and its
  guard evaluates true; the guards that are asked are those of the edges with that event
  up to the first edge that fires. Where all of these guards return,
  \<open>triggerSimulationEvent\<close> returns, and its result is fixed by the first edge that
  fires: with such an edge the next configuration is \<open>enterNode\<close> of its target from an
  empty visited set, whatever the other leaves were, and the fired edge is that edge's id;
  with none the configuration comes back unchanged and no edge is fired. Where one of
  these guards does not return, the call does not return.
\<close>

theorem trigger_first_match:
  assumes walks:
      "mapM_option (\<lambda>leaf. getAncestors leaf (buildMaps machine)) activeLeafIds = Some ancs"
  shows
    "((\<forall>e\<in>set (takeWhile
                   (\<lambda>e. \<not> (event (data_edge e) = eventType
                            \<and> evaluateGuard js (guard (data_edge e)) eventType = Some True))
                   (concat (map (edgesBySource (buildMaps machine)) (concat ancs)))).
          event (data_edge e) = eventType \<longrightarrow>
            evaluateGuard js (guard (data_edge e)) eventType \<noteq> None) \<longrightarrow>
        (\<exists>r. triggerSimulationEvent js machine activeLeafIds eventType = Some r \<and>
           (case find (\<lambda>e. event (data_edge e) = eventType
                            \<and> evaluateGuard js (guard (data_edge e)) eventType = Some True)
                   (concat (map (edgesBySource (buildMaps machine)) (concat ancs))) of
              None \<Rightarrow> r = \<lparr>nextActiveLeafIds = activeLeafIds, takenEdgeId = None\<rparr>
            | Some e \<Rightarrow>
                enterNode (target e) (buildMaps machine) {} = Some (nextActiveLeafIds r)
                \<and> takenEdgeId r = Some (id_edge e))))
     \<and> ((\<exists>e\<in>set (takeWhile
                   (\<lambda>e. \<not> (event (data_edge e) = eventType
                            \<and> evaluateGuard js (guard (data_edge e)) eventType = Some True))
                   (concat (map (edgesBySource (buildMaps machine)) (concat ancs)))).
          event (data_edge e) = eventType
          \<and> evaluateGuard js (guard (data_edge e)) eventType = None) \<longrightarrow>
        triggerSimulationEvent js machine activeLeafIds eventType = None)"
proof (intro conjI impI)
  let ?es = "concat (map (edgesBySource (buildMaps machine)) (concat ancs))"
  let ?fires = "\<lambda>e. event (data_edge e) = eventType
                      \<and> evaluateGuard js (guard (data_edge e)) eventType = Some True"
  assume guards: "\<forall>e\<in>set (takeWhile (\<lambda>e. \<not> ?fires e) ?es).
      event (data_edge e) = eventType \<longrightarrow>
        evaluateGuard js (guard (data_edge e)) eventType \<noteq> None"
  have "findFirst (edgeMatches js eventType) ?es
          = Some (find (\<lambda>e. edgeMatches js eventType e = Some True) ?es)"
  proof (rule findFirst_asked)
    fix e assume "e \<in> set (takeWhile (\<lambda>e. edgeMatches js eventType e \<noteq> Some True) ?es)"
    with guards have "event (data_edge e) = eventType \<longrightarrow>
        evaluateGuard js (guard (data_edge e)) eventType \<noteq> None"
      by (simp add: edgeMatches_true)
    then show "edgeMatches js eventType e \<noteq> None" by (rule edgeMatches_returns)
  qed
  then have ff: "findFirst (edgeMatches js eventType) ?es = Some (find ?fires ?es)"
    by (simp add: edgeMatches_true)
  show "\<exists>r. triggerSimulationEvent js machine activeLeafIds eventType = Some r \<and>
         (case find ?fires ?es of
            None \<Rightarrow> r = \<lparr>nextActiveLeafIds = activeLeafIds, takenEdgeId = None\<rparr>
          | Some e \<Rightarrow>
              enterNode (target e) (buildMaps machine) {} = Some (nextActiveLeafIds r)
              \<and> takenEdgeId r = Some (id_edge e))"
  proof (cases "find ?fires ?es")
    case None
    then show ?thesis
      by (simp add: triggerSimulationEvent_def triggerLoop_findFirst[OF walks] ff)
  next
    case (Some e)
    obtain ls where "enterNode (target e) (buildMaps machine) {} = Some ls"
      using enterNode_returns by blast
    with Some show ?thesis
      by (simp add: triggerSimulationEvent_def triggerLoop_findFirst[OF walks] ff)
  qed
next
  let ?es = "concat (map (edgesBySource (buildMaps machine)) (concat ancs))"
  let ?fires = "\<lambda>e. event (data_edge e) = eventType
                      \<and> evaluateGuard js (guard (data_edge e)) eventType = Some True"
  assume "\<exists>e\<in>set (takeWhile (\<lambda>e. \<not> ?fires e) ?es).
      event (data_edge e) = eventType
      \<and> evaluateGuard js (guard (data_edge e)) eventType = None"
  then obtain e where
    e: "e \<in> set (takeWhile (\<lambda>e. edgeMatches js eventType e \<noteq> Some True) ?es)"
      "edgeMatches js eventType e = None"
    by (auto simp: edgeMatches_true) (simp add: edgeMatches_def)
  have "findFirst (edgeMatches js eventType) ?es = None"
    using e by (rule findFirst_hangs)
  then show "triggerSimulationEvent js machine activeLeafIds eventType = None"
    by (simp add: triggerSimulationEvent_def triggerLoop_findFirst[OF walks])
qed

text \<open>
  The theorem at the checkout example with both regions of \<open>review\<close> active: the
  first leaf has no edge for \<open>PAYMENT_OK\<close>, the second has one, whose guard \<open>true\<close> the
  sample host evaluates, and the configuration after it is \<open>confirm\<close> alone. And at an
  edge whose guard calls an endless loop: the ancestor walk ends, the guard is asked, and
  the event is never resolved.
\<close>

theorem trigger_first_match_witness:
  "mapM_option (\<lambda>leaf. getAncestors leaf (buildMaps checkoutMachine))
       [''review_shipping'', ''review_payment'']
     = Some [[''review_shipping'', ''review''], [''review_payment'', ''review'']]
   \<and> list_all
         (\<lambda>e. event (data_edge e) = ''PAYMENT_OK'' \<longrightarrow>
                evaluateGuard hostSample (guard (data_edge e)) ''PAYMENT_OK'' \<noteq> None)
         (takeWhile
            (\<lambda>e. \<not> (event (data_edge e) = ''PAYMENT_OK''
                     \<and> evaluateGuard hostSample (guard (data_edge e)) ''PAYMENT_OK'' = Some True))
            (concat (map (edgesBySource (buildMaps checkoutMachine))
               (concat [[''review_shipping'', ''review''], [''review_payment'', ''review'']]))))
   \<and> triggerSimulationEvent hostSample checkoutMachine
       [''review_shipping'', ''review_payment''] ''PAYMENT_OK''
     = Some \<lparr>nextActiveLeafIds = [''confirm''], takenEdgeId = Some ''e_payment_confirm''\<rparr>
   \<and> mapM_option (\<lambda>leaf. getAncestors leaf (buildMaps loopGuardMachine)) [''a'']
     = Some [[''a'']]
   \<and> list_ex
         (\<lambda>e. event (data_edge e) = ''GO''
              \<and> evaluateGuard hostSample (guard (data_edge e)) ''GO'' = None)
         (takeWhile
            (\<lambda>e. \<not> (event (data_edge e) = ''GO''
                     \<and> evaluateGuard hostSample (guard (data_edge e)) ''GO'' = Some True))
            (concat (map (edgesBySource (buildMaps loopGuardMachine)) (concat [[''a'']]))))
   \<and> triggerSimulationEvent hostSample loopGuardMachine [''a''] ''GO'' = None"
proof -
  have h: "mapM_option (\<lambda>leaf. getAncestors leaf (buildMaps checkoutMachine))
       [''review_shipping'', ''review_payment'']
     = Some [[''review_shipping'', ''review''], [''review_payment'', ''review'']]"
    by code_simp
  have g: "list_all
         (\<lambda>e. event (data_edge e) = ''PAYMENT_OK'' \<longrightarrow>
                evaluateGuard hostSample (guard (data_edge e)) ''PAYMENT_OK'' \<noteq> None)
         (takeWhile
            (\<lambda>e. \<not> (event (data_edge e) = ''PAYMENT_OK''
                     \<and> evaluateGuard hostSample (guard (data_edge e)) ''PAYMENT_OK'' = Some True))
            (concat (map (edgesBySource (buildMaps checkoutMachine))
               (concat [[''review_shipping'', ''review''], [''review_payment'', ''review'']]))))"
    by code_simp
  have f: "find (\<lambda>e. event (data_edge e) = ''PAYMENT_OK''
                      \<and> evaluateGuard hostSample (guard (data_edge e)) ''PAYMENT_OK'' = Some True)
       (concat (map (edgesBySource (buildMaps checkoutMachine))
          (concat [[''review_shipping'', ''review''], [''review_payment'', ''review'']])))
     = Some (mkEdge ''e_payment_confirm'' ''review_payment'' ''confirm'' ''PAYMENT_OK'' ''true''
           [''capturePayment''])"
    by code_simp
  have e: "enterNode ''confirm'' (buildMaps checkoutMachine) {} = Some [''confirm'']"
    by code_simp
  note c = mp[OF conjunct1[OF trigger_first_match[OF h]] g[unfolded list_all_iff],
      unfolded f option.case]
  then obtain r where
    r: "triggerSimulationEvent hostSample checkoutMachine
       [''review_shipping'', ''review_payment''] ''PAYMENT_OK'' = Some r"
      "enterNode ''confirm'' (buildMaps checkoutMachine) {} = Some (nextActiveLeafIds r)"
      "takenEdgeId r = Some ''e_payment_confirm''"
    by (auto simp: mkEdge_def)
  from r e have "r = \<lparr>nextActiveLeafIds = [''confirm''], takenEdgeId = Some ''e_payment_confirm''\<rparr>"
    by simp
  with r(1) have fired: "triggerSimulationEvent hostSample checkoutMachine
       [''review_shipping'', ''review_payment''] ''PAYMENT_OK''
     = Some \<lparr>nextActiveLeafIds = [''confirm''], takenEdgeId = Some ''e_payment_confirm''\<rparr>"
    by simp
  have h': "mapM_option (\<lambda>leaf. getAncestors leaf (buildMaps loopGuardMachine)) [''a'']
     = Some [[''a'']]"
    by code_simp
  have g': "list_ex
         (\<lambda>e. event (data_edge e) = ''GO''
              \<and> evaluateGuard hostSample (guard (data_edge e)) ''GO'' = None)
         (takeWhile
            (\<lambda>e. \<not> (event (data_edge e) = ''GO''
                     \<and> evaluateGuard hostSample (guard (data_edge e)) ''GO'' = Some True))
            (concat (map (edgesBySource (buildMaps loopGuardMachine)) (concat [[''a'']]))))"
    by code_simp
  have hangs: "triggerSimulationEvent hostSample loopGuardMachine [''a''] ''GO'' = None"
    by (rule mp[OF conjunct2[OF trigger_first_match[OF h']] g'[unfolded list_ex_iff]])
  from h g fired h' g' hangs show ?thesis by (intro conjI)
qed

text \<open>
  Two nodes, each the parent of the other, and no edge: nothing matches, and the
  configuration is not returned.
\<close>

theorem trigger_parent_cycle_counterexample:
  "edges parentCycleMachine = []
   \<and> triggerSimulationEvent hostSample parentCycleMachine [''a''] ''GO''
       \<noteq> Some \<lparr>nextActiveLeafIds = [''a''], takenEdgeId = None\<rparr>"
proof -
  have "getAncestors ''a'' (buildMaps parentCycleMachine) = None"
    by (rule getAncestors_on_cycle[where S = "{''a'', ''b''}"])
      (auto simp: buildMaps_def parentCycleMachine_def mkNode_def)
  then show ?thesis
    by (simp add: triggerSimulationEvent_def findTransitionForEvent_def parentCycleMachine_def)
qed

text \<open>
  An edge for \<open>GO\<close> whose guard calls an endless loop: the ancestor walk ends, the guard
  is asked, and the event is never resolved.
\<close>

lemma trigger_loop_guard_hangs:
  "getAncestors ''a'' (buildMaps loopGuardMachine) = Some [''a'']
   \<and> evaluateGuard hostSample ''(function(){for(;;){}})()'' ''GO'' = None
   \<and> triggerSimulationEvent hostSample loopGuardMachine [''a''] ''GO'' = None"
  by code_simp

subsection \<open>Termination, the bundled example and guards\<close>

text \<open>
  Claim C9, as the code has it. \<open>enterNode\<close> returns on every document, from every
  node id and every visited set, and so \<open>initialSimulationState\<close> always returns.
  \<open>triggerSimulationEvent\<close> returns whenever the \<open>parentNode\<close> links have no cycle
  and the guard of every edge for the event returns.
\<close>

theorem enterNode_always_returns:
  "(\<exists>ls. enterNode nodeId (buildMaps machine) seen = Some ls)
   \<and> (\<exists>ls. initialSimulationState machine = Some ls)
   \<and> (acyclic (parentRel (buildMaps machine)) \<longrightarrow>
        (\<forall>e\<in>set (edges machine).
            event (data_edge e) = eventType \<longrightarrow>
              evaluateGuard js (guard (data_edge e)) eventType \<noteq> None) \<longrightarrow>
        (\<exists>r. triggerSimulationEvent js machine activeLeafIds eventType = Some r))"
proof (intro conjI impI)
  show "\<exists>ls. enterNode nodeId (buildMaps machine) seen = Some ls" by (rule enterNode_returns)
  show "\<exists>ls. initialSimulationState machine = Some ls" by (rule initialSimulationState_returns)
next
  assume ac: "acyclic (parentRel (buildMaps machine))"
    and guards: "\<forall>e\<in>set (edges machine).
            event (data_edge e) = eventType \<longrightarrow>
              evaluateGuard js (guard (data_edge e)) eventType \<noteq> None"
  have "\<exists>ancs. mapM_option (\<lambda>leaf. getAncestors leaf (buildMaps machine)) activeLeafIds = Some ancs"
    by (rule mapM_option_Some) (rule getAncestors_returns[OF ac])
  then obtain ancs where
    ancs: "mapM_option (\<lambda>leaf. getAncestors leaf (buildMaps machine)) activeLeafIds = Some ancs"
    by blast
  let ?es = "concat (map (edgesBySource (buildMaps machine)) (concat ancs))"
  have sub: "set ?es \<subseteq> set (edges machine)" by (auto simp: buildMaps_def)
  have "findFirst (edgeMatches js eventType) ?es
          = Some (find (\<lambda>e. edgeMatches js eventType e = Some True) ?es)"
  proof (rule findFirst_find)
    fix e assume "e \<in> set ?es"
    with sub guards have "event (data_edge e) = eventType \<longrightarrow>
        evaluateGuard js (guard (data_edge e)) eventType \<noteq> None"
      by blast
    then show "edgeMatches js eventType e \<noteq> None" by (rule edgeMatches_returns)
  qed
  then show "\<exists>r. triggerSimulationEvent js machine activeLeafIds eventType = Some r"
    unfolding triggerSimulationEvent_def triggerLoop_findFirst[OF ancs]
    using enterNode_returns[of _ machine "{}"]
    by (auto split: option.splits)
qed

lemma checkout_parentRel:
  "parentRel (buildMaps checkoutMachine)
     = {(''review'', ''review_shipping''), (''review'', ''review_payment''),
        (''review'', ''review_init_shipping'')}"
  by (auto simp: parentRel_def buildMaps_def checkoutMachine_def mkNode_def split: if_splits)

lemma checkout_acyclic: "acyclic (parentRel (buildMaps checkoutMachine))"
  unfolding checkout_parentRel
  by (rule acyclicI_order[where f = "\<lambda>s. if s = ''review'' then (1::nat) else 0"]) auto

text \<open>
  The theorem at the checkout example and the event \<open>PAYMENT_OK\<close>, whose one edge has
  the guard \<open>true\<close>.
\<close>

theorem enterNode_always_returns_witness:
  "acyclic (parentRel (buildMaps checkoutMachine))
   \<and> list_all
         (\<lambda>e. event (data_edge e) = ''PAYMENT_OK'' \<longrightarrow>
                evaluateGuard hostSample (guard (data_edge e)) ''PAYMENT_OK'' \<noteq> None)
         (edges checkoutMachine)
   \<and> (\<exists>ls. enterNode ''review'' (buildMaps checkoutMachine) {''cart''} = Some ls)
   \<and> (\<exists>ls. initialSimulationState checkoutMachine = Some ls)
   \<and> (\<exists>r. triggerSimulationEvent hostSample checkoutMachine
              [''review_shipping'', ''review_payment''] ''PAYMENT_OK'' = Some r)"
proof -
  have g: "\<forall>e\<in>set (edges checkoutMachine).
          event (data_edge e) = ''PAYMENT_OK'' \<longrightarrow>
            evaluateGuard hostSample (guard (data_edge e)) ''PAYMENT_OK'' \<noteq> None"
    by code_simp
  from enterNode_always_returns[of "''review''" checkoutMachine "{''cart''}" "''PAYMENT_OK''"
      hostSample "[''review_shipping'', ''review_payment'']"] checkout_acyclic g
  show ?thesis unfolding list_all_iff by blast
qed

text \<open>
  On a node that is its own parent \<open>getAncestors\<close> never leaves its loop, and the
  event is never resolved.
\<close>

theorem trigger_self_parent_counterexample:
  "triggerSimulationEvent hostSample selfParentMachine [''a''] ''GO'' = None"
proof -
  have "getAncestors ''a'' (buildMaps selfParentMachine) = None"
    by (rule getAncestors_on_cycle[where S = "{''a''}"])
      (auto simp: buildMaps_def selfParentMachine_def mkNode_def)
  then show ?thesis
    by (simp add: triggerSimulationEvent_def findTransitionForEvent_def)
qed

text \<open>
  The checkout example starts in \<open>cart\<close>, the target of its root marker: neither
  region of \<open>review\<close> is in the initial configuration.
\<close>

theorem checkout_initial_counterexample:
  "initialSimulationState checkoutMachine = Some [''cart'']
   \<and> ''review_shipping'' \<notin> set [''cart''] \<and> ''review_payment'' \<notin> set [''cart'']"
  by code_simp

text \<open>
  Claim C5, as the code has it. The initial configuration of the checkout example is
  \<open>cart\<close>; the event \<open>BEGIN_CHECKOUT\<close> fires the edge into \<open>review\<close>, and entering that
  parallel node gives both \<open>review_shipping\<close> and \<open>review_payment\<close> at once.
\<close>

theorem checkout_review_entered:
  "initialSimulationState checkoutMachine = Some [''cart'']
   \<and> triggerSimulationEvent js checkoutMachine [''cart''] ''BEGIN_CHECKOUT''
       = Some \<lparr>nextActiveLeafIds = [''review_shipping'', ''review_payment''],
               takenEdgeId = Some ''e_cart_review''\<rparr>
   \<and> enterNode ''review'' (buildMaps checkoutMachine) {}
       = Some [''review_shipping'', ''review_payment'']"
  by code_simp

lemma dropWhile_all_space:
  "(\<forall>c\<in>set (dropWhile isSpace g). isSpace c) = (\<forall>c\<in>set g. isSpace c)"
proof
  assume all: "\<forall>c\<in>set (dropWhile isSpace g). isSpace c"
  have "dropWhile isSpace g = []"
  proof (rule ccontr)
    assume ne: "dropWhile isSpace g \<noteq> []"
    then have "\<not> isSpace (hd (dropWhile isSpace g))" by (rule hd_dropWhile)
    moreover have "hd (dropWhile isSpace g) \<in> set (dropWhile isSpace g)" using ne by simp
    ultimately show False using all by blast
  qed
  then show "\<forall>c\<in>set g. isSpace c" by (simp only: dropWhile_eq_Nil_conv)
next
  assume "\<forall>c\<in>set g. isSpace c"
  then show "\<forall>c\<in>set (dropWhile isSpace g). isSpace c" by (auto dest: set_dropWhileD)
qed

lemma trim_empty_iff: "(trim g = []) = (\<forall>c\<in>set g. isSpace c)"
proof -
  have "(trim g = []) = (\<forall>c\<in>set (dropWhile isSpace g). isSpace c)"
    by (simp only: trim_def rev_is_Nil_conv dropWhile_eq_Nil_conv set_rev)
  then show ?thesis by (simp only: dropWhile_all_space)
qed

text \<open>
  Claim C6, as the code has it. \<open>evaluateGuard\<close> raises nothing, and it returns
  exactly when the guard is blank or the host's evaluation of \<open>return (guard);\<close> returns
  or throws. A guard that is empty or only white space is true, and the host is not asked.
  For any other guard the answer is the truthiness of the value where the evaluation
  returns one (so false for \<open>1 === 2\<close> on a host that evaluates it to false), false where
  compiling or calling throws, and no answer at all where the call never returns.
\<close>

theorem evaluateGuard_cases:
  "((\<forall>c\<in>set g. isSpace c) \<longrightarrow> evaluateGuard js g eventType = Some True)
   \<and> ((\<exists>c\<in>set g. \<not> isSpace c) \<longrightarrow>
        (js (''return ('' @ g @ '');'') eventType = Returned b \<longrightarrow>
           evaluateGuard js g eventType = Some b)
        \<and> (js (''return ('' @ g @ '');'') eventType = Thrown \<longrightarrow>
           evaluateGuard js g eventType = Some False)
        \<and> (js (''return ('' @ g @ '');'') eventType = NeverReturns \<longrightarrow>
           evaluateGuard js g eventType = None))
   \<and> (js ''return (1 === 2);'' eventType = Returned False \<longrightarrow>
        evaluateGuard js ''1 === 2'' eventType = Some False)
   \<and> ((\<exists>v. evaluateGuard js g eventType = Some v)
        = ((\<forall>c\<in>set g. isSpace c) \<or> js (''return ('' @ g @ '');'') eventType \<noteq> NeverReturns))"
proof -
  have t: "trim ''1 === 2'' \<noteq> []" by code_simp
  have blank: "(\<forall>c\<in>set g. isSpace c) \<Longrightarrow> trim g = []"
    and other: "(\<exists>c\<in>set g. \<not> isSpace c) \<Longrightarrow> trim g \<noteq> []"
    by (simp_all add: trim_empty_iff)
  show ?thesis
  proof (cases "\<forall>c\<in>set g. isSpace c")
    case True
    with blank t show ?thesis by (auto simp: evaluateGuard_def)
  next
    case False
    then have "trim g \<noteq> []" using other by simp
    with False t show ?thesis
      by (auto simp: evaluateGuard_def split: js_outcome.splits)
  qed
qed

text \<open>
  The theorem on the sample host: the empty guard, \<open>1 === 2\<close>, the text \<open>1 +\<close> that
  does not compile, and a call of an endless loop.
\<close>

theorem evaluateGuard_cases_witness:
  "evaluateGuard hostSample [] ''GO'' = Some True
   \<and> hostSample ''return (1 === 2);'' ''GO'' = Returned False
   \<and> evaluateGuard hostSample ''1 === 2'' ''GO'' = Some False
   \<and> (\<exists>c\<in>set ''1 +''. \<not> isSpace c) \<and> hostSample ''return (1 +);'' ''GO'' = Thrown
   \<and> evaluateGuard hostSample ''1 +'' ''GO'' = Some False
   \<and> hostSample ''return ((function(){for(;;){}})());'' ''GO'' = NeverReturns
   \<and> evaluateGuard hostSample ''(function(){for(;;){}})()'' ''GO'' = None"
proof -
  have a: "hostSample ''return (1 === 2);'' ''GO'' = Returned False" by code_simp
  have c: "\<exists>c\<in>set ''1 +''. \<not> isSpace c" by code_simp
  have c': "\<exists>c\<in>set ''(function(){for(;;){}})()''. \<not> isSpace c" by code_simp
  have d: "hostSample (''return ('' @ ''1 +'' @ '');'') ''GO'' = Thrown" by code_simp
  have d': "hostSample ''return (1 +);'' ''GO'' = Thrown" by code_simp
  have l: "hostSample (''return ('' @ ''(function(){for(;;){}})()'' @ '');'') ''GO'' = NeverReturns"
    by code_simp
  have l': "hostSample ''return ((function(){for(;;){}})());'' ''GO'' = NeverReturns"
    by code_simp
  have "evaluateGuard hostSample [] ''GO'' = Some True"
    using evaluateGuard_cases[of "[]" hostSample "''GO''"] by simp
  moreover have "evaluateGuard hostSample ''1 === 2'' ''GO'' = Some False"
    using evaluateGuard_cases[of "[]" hostSample "''GO''"] a by blast
  moreover have "evaluateGuard hostSample ''1 +'' ''GO'' = Some False"
    using evaluateGuard_cases[of "''1 +''" hostSample "''GO''"] c d by blast
  moreover have "evaluateGuard hostSample ''(function(){for(;;){}})()'' ''GO'' = None"
    using evaluateGuard_cases[of "''(function(){for(;;){}})()''" hostSample "''GO''"] c' l by blast
  ultimately show ?thesis using a c d' l' by blast
qed

text \<open>
  Three spaces are no expression: the host rejects \<open>return (   );\<close>, and the guard is
  true all the same. And the guard that calls an endless loop has no value: the call of
  \<open>evaluateGuard\<close> does not return.
\<close>

theorem evaluateGuard_not_total_counterexample:
  "hostSample ''return (   );'' ''GO'' = Thrown
   \<and> evaluateGuard hostSample ''   '' ''GO'' = Some True
   \<and> hostSample ''return ((function(){for(;;){}})());'' ''GO'' = NeverReturns
   \<and> evaluateGuard hostSample ''(function(){for(;;){}})()'' ''GO'' = None"
  by code_simp

subsection \<open>Available events\<close>

lemma set_insertSorted: "set (insertSorted cmp x ys) = insert x (set ys)"
  by (induction ys) auto

lemma set_sortWith: "set (sortWith cmp xs) = set xs"
  by (induction xs) (simp_all add: sortWith_def set_insertSorted)

lemma distinct_insertSorted: "distinct (insertSorted cmp x ys) = (x \<notin> set ys \<and> distinct ys)"
  by (induction ys) (auto simp: set_insertSorted)

lemma distinct_sortWith: "distinct (sortWith cmp xs) = distinct xs"
  by (induction xs) (simp_all add: sortWith_def distinct_insertSorted set_sortWith[unfolded sortWith_def])

lemma distinct_foldl_setAdd: "distinct acc \<Longrightarrow> distinct (foldl setAdd acc xs)"
  by (induction xs arbitrary: acc) (auto simp: setAdd_def)

lemma distinct_setAddAll: "distinct (setAddAll xs)"
  by (simp add: setAddAll_def distinct_foldl_setAdd)

lemma getAvailableEvents_listing:
  assumes "mapM_option (\<lambda>leaf. getAncestors leaf (buildMaps machine)) activeLeafIds = Some ancs"
  shows "\<exists>evs. getAvailableEvents localeCompare machine activeLeafIds = Some evs
           \<and> distinct evs
           \<and> set evs = {ev. ev \<noteq> [] \<and>
                 (\<exists>e\<in>set (concat (map (edgesBySource (buildMaps machine)) (concat ancs))).
                     ev = trim (event (data_edge e)))}"
  by (auto simp: getAvailableEvents_def Let_def assms set_sortWith set_setAddAll
      distinct_sortWith distinct_setAddAll)

text \<open>An edge whose event is \<open>GO\<close> between two spaces.\<close>

lemma padded_event_unfired:
  "getAvailableEvents localeCompare paddedEventMachine [''a''] = Some [''GO'']
   \<and> triggerSimulationEvent js paddedEventMachine [''a''] ''GO''
       = Some \<lparr>nextActiveLeafIds = [''a''], takenEdgeId = None\<rparr>"
  by code_simp

text \<open>An edge whose guard is never true on the sample host.\<close>

lemma guarded_event_unfired:
  "getAvailableEvents localeCompare guardedEventMachine [''a''] = Some [''GO'']
   \<and> triggerSimulationEvent hostSample guardedEventMachine [''a''] ''GO''
       = Some \<lparr>nextActiveLeafIds = [''a''], takenEdgeId = None\<rparr>"
  by code_simp

text \<open>
  Claim C10. Where the ancestor walks of a configuration end, \<open>getAvailableEvents\<close>
  lists, each once, the trimmed event names that are not empty of the edges leaving the
  active leaves and their ancestors, whatever their guards; and
  \<open>triggerSimulationEvent\<close> returns the configuration unchanged, with no fired edge,
  where every one of those edges whose event as written equals the event type has a guard
  that evaluates false. So a listed event need not fire. The edge of \<open>paddedEventMachine\<close>
  has the event \<open>GO\<close> between two spaces: \<open>GO\<close> is listed, and no edge has that event
  as written. The edge of \<open>guardedEventMachine\<close> has the event \<open>GO\<close> and the guard
  \<open>1 === 2\<close>: \<open>GO\<close> is listed, and the guard is false.
\<close>

theorem available_event_not_fired:
  "(\<forall>ancs. mapM_option (\<lambda>leaf. getAncestors leaf (buildMaps machine)) activeLeafIds = Some ancs \<longrightarrow>
      (\<exists>evs. getAvailableEvents localeCompare machine activeLeafIds = Some evs
           \<and> distinct evs
           \<and> set evs = {ev. ev \<noteq> [] \<and>
                 (\<exists>e\<in>set (concat (map (edgesBySource (buildMaps machine)) (concat ancs))).
                     ev = trim (event (data_edge e)))})
      \<and> ((\<forall>e\<in>set (concat (map (edgesBySource (buildMaps machine)) (concat ancs))).
             event (data_edge e) = eventType \<longrightarrow>
               evaluateGuard js (guard (data_edge e)) eventType = Some False) \<longrightarrow>
           triggerSimulationEvent js machine activeLeafIds eventType
             = Some \<lparr>nextActiveLeafIds = activeLeafIds, takenEdgeId = None\<rparr>))
   \<and> getAvailableEvents localeCompare paddedEventMachine [''a''] = Some [''GO'']
   \<and> triggerSimulationEvent js paddedEventMachine [''a''] ''GO''
       = Some \<lparr>nextActiveLeafIds = [''a''], takenEdgeId = None\<rparr>
   \<and> getAvailableEvents localeCompare guardedEventMachine [''a''] = Some [''GO'']
   \<and> triggerSimulationEvent hostSample guardedEventMachine [''a''] ''GO''
       = Some \<lparr>nextActiveLeafIds = [''a''], takenEdgeId = None\<rparr>"
proof (intro conjI allI impI)
  fix ancs
  assume walks:
    "mapM_option (\<lambda>leaf. getAncestors leaf (buildMaps machine)) activeLeafIds = Some ancs"
  show "\<exists>evs. getAvailableEvents localeCompare machine activeLeafIds = Some evs
           \<and> distinct evs
           \<and> set evs = {ev. ev \<noteq> [] \<and>
                 (\<exists>e\<in>set (concat (map (edgesBySource (buildMaps machine)) (concat ancs))).
                     ev = trim (event (data_edge e)))}"
    by (rule getAvailableEvents_listing[OF walks])
  assume guards:
    "\<forall>e\<in>set (concat (map (edgesBySource (buildMaps machine)) (concat ancs))).
       event (data_edge e) = eventType \<longrightarrow>
         evaluateGuard js (guard (data_edge e)) eventType = Some False"
  have "findFirst (edgeMatches js eventType)
          (concat (map (edgesBySource (buildMaps machine)) (concat ancs))) = Some None"
  proof (rule findFirst_none)
    fix e assume "e \<in> set (concat (map (edgesBySource (buildMaps machine)) (concat ancs)))"
    with guards show "edgeMatches js eventType e = Some False"
      by (auto simp: edgeMatches_def)
  qed
  then show "triggerSimulationEvent js machine activeLeafIds eventType
             = Some \<lparr>nextActiveLeafIds = activeLeafIds, takenEdgeId = None\<rparr>"
    by (simp add: triggerSimulationEvent_def triggerLoop_findFirst[OF walks])
next
  show "getAvailableEvents localeCompare paddedEventMachine [''a''] = Some [''GO'']"
    using padded_event_unfired[of localeCompare js] by simp
  show "triggerSimulationEvent js paddedEventMachine [''a''] ''GO''
       = Some \<lparr>nextActiveLeafIds = [''a''], takenEdgeId = None\<rparr>"
    using padded_event_unfired[of localeCompare js] by simp
  show "getAvailableEvents localeCompare guardedEventMachine [''a''] = Some [''GO'']"
    using guarded_event_unfired[of localeCompare] by simp
  show "triggerSimulationEvent hostSample guardedEventMachine [''a''] ''GO''
       = Some \<lparr>nextActiveLeafIds = [''a''], takenEdgeId = None\<rparr>"
    using guarded_event_unfired[of localeCompare] by simp
qed

text \<open>
  The theorem at \<open>guardedEventMachine\<close> with \<open>a\<close> active, on the sample host: the walk
  from \<open>a\<close> ends, the one scanned edge has the event \<open>GO\<close> and a guard that is false,
  \<open>GO\<close> is the one listed event, and triggering it changes nothing.
\<close>

theorem available_event_not_fired_witness:
  "mapM_option (\<lambda>leaf. getAncestors leaf (buildMaps guardedEventMachine)) [''a'']
     = Some [[''a'']]
   \<and> list_all
         (\<lambda>e. event (data_edge e) = ''GO'' \<longrightarrow>
                evaluateGuard hostSample (guard (data_edge e)) ''GO'' = Some False)
         (concat (map (edgesBySource (buildMaps guardedEventMachine)) (concat [[''a'']])))
   \<and> (\<exists>e\<in>set (concat (map (edgesBySource (buildMaps guardedEventMachine)) (concat [[''a'']]))).
          ''GO'' = trim (event (data_edge e)))
   \<and> (\<exists>evs. getAvailableEvents (\<lambda>a b. 0) guardedEventMachine [''a''] = Some evs
          \<and> ''GO'' \<in> set evs)
   \<and> triggerSimulationEvent hostSample guardedEventMachine [''a''] ''GO''
       = Some \<lparr>nextActiveLeafIds = [''a''], takenEdgeId = None\<rparr>"
proof -
  have w: "mapM_option (\<lambda>leaf. getAncestors leaf (buildMaps guardedEventMachine)) [''a'']
     = Some [[''a'']]"
    by code_simp
  have g: "\<forall>e\<in>set (concat (map (edgesBySource (buildMaps guardedEventMachine)) (concat [[''a'']]))).
          event (data_edge e) = ''GO'' \<longrightarrow>
            evaluateGuard hostSample (guard (data_edge e)) ''GO'' = Some False"
    by code_simp
  have m: "\<exists>e\<in>set (concat (map (edgesBySource (buildMaps guardedEventMachine)) (concat [[''a'']]))).
          ''GO'' = trim (event (data_edge e))"
    by code_simp
  note t = available_event_not_fired[where machine = guardedEventMachine
      and activeLeafIds = "[''a'']" and localeCompare = "\<lambda>a b. 0" and js = hostSample
      and eventType = "''GO''"]
  from t w obtain evs where
    evs: "getAvailableEvents (\<lambda>a b. 0) guardedEventMachine [''a''] = Some evs"
      "set evs = {ev. ev \<noteq> [] \<and>
          (\<exists>e\<in>set (concat (map (edgesBySource (buildMaps guardedEventMachine)) (concat [[''a'']]))).
              ev = trim (event (data_edge e)))}"
    by blast
  have "''GO'' \<in> set evs" unfolding evs(2) using m by simp
  with evs(1) have l: "\<exists>evs. getAvailableEvents (\<lambda>a b. 0) guardedEventMachine [''a''] = Some evs
          \<and> ''GO'' \<in> set evs"
    by blast
  from t w g have f: "triggerSimulationEvent hostSample guardedEventMachine [''a''] ''GO''
       = Some \<lparr>nextActiveLeafIds = [''a''], takenEdgeId = None\<rparr>"
    by blast
  from w g m l f show ?thesis unfolding list_all_iff by blast
qed

section \<open>Properties of the interchange format\<close>

lemma finite_parentLinks: "finite (parentLinks machine)"
proof -
  have "parentLinks machine \<subseteq> (\<lambda>n. (the (parentNode n), id_node n)) ` set (nodes machine)"
  proof
    fix pc assume "pc \<in> parentLinks machine"
    then obtain n where n: "n \<in> set (nodes machine)" "parentNode n = Some (fst pc)" "id_node n = snd pc"
      unfolding parentLinks_def by auto
    then have "pc = (the (parentNode n), id_node n)" by simp
    with n(1) show "pc \<in> (\<lambda>n. (the (parentNode n), id_node n)) ` set (nodes machine)"
      by (rule_tac image_eqI)
  qed
  then show ?thesis by (rule finite_subset) simp
qed

lemma wf_parentLinks:
  assumes "acyclic (parentLinks machine)"
  shows "wf ((parentLinks machine)\<inverse>)"
  by (rule finite_acyclic_wf) (simp_all add: finite_parentLinks assms)

text \<open>
  In the lemmas on returning, \<open>safe\<close> stands for a condition under which nothing
  raises.
\<close>

lemma mapM_raising_returns:
  assumes "\<And>x. x \<in> set xs \<Longrightarrow> \<exists>r. f x = Some r \<and> (safe \<longrightarrow> (\<exists>y. r = Inr y))"
  shows "\<exists>r. mapM_raising f xs = Some r \<and> (safe \<longrightarrow> (\<exists>ys. r = Inr ys))"
  using assms
proof (induction xs)
  case Nil
  show ?case by simp
next
  case (Cons x xs)
  obtain r where r: "f x = Some r" "safe \<longrightarrow> (\<exists>y. r = Inr y)"
    using Cons.prems[of x] by auto
  obtain rs where rs: "mapM_raising f xs = Some rs" "safe \<longrightarrow> (\<exists>ys. rs = Inr ys)"
    using Cons.IH Cons.prems by auto
  show ?case
  proof (cases r)
    case (Inl err)
    with r show ?thesis by auto
  next
    case (Inr y)
    with r rs show ?thesis by (cases rs) auto
  qed
qed

lemma objRead_not_inherited: "k \<notin> set objectPrototypeKeys \<Longrightarrow> objRead obj k \<noteq> Inherited"
  by (simp add: objRead_def split: option.splits)

lemma groupTransitions_returns:
  "(\<And>e. e \<in> set es \<Longrightarrow> trim (event (data_edge e)) \<notin> set objectPrototypeKeys)
     \<Longrightarrow> \<exists>g. groupTransitions grouped es = Inr g"
proof (induction es arbitrary: grouped)
  case Nil
  show ?case by simp
next
  case (Cons e es)
  have own: "objRead grouped (trim (event (data_edge e))) \<noteq> Inherited"
    by (rule objRead_not_inherited) (simp add: Cons.prems)
  have rest: "\<exists>g. groupTransitions grouped' es = Inr g" for grouped'
    by (rule Cons.IH) (simp add: Cons.prems)
  show ?case
  proof (cases "objRead grouped (trim (event (data_edge e)))")
    case (Own existing)
    with rest show ?thesis by (simp add: Let_def)
  next
    case Inherited
    with own show ?thesis by simp
  next
    case Missing
    with rest show ?thesis by (simp add: Let_def)
  qed
qed

lemma stateConfigOf_returns:
  assumes "\<forall>e\<in>set (edges machine). trim (event (data_edge e)) \<notin> set objectPrototypeKeys"
  shows "\<exists>stateConfig. stateConfigOf machine child nested = Inr stateConfig"
proof -
  have "\<exists>g. groupTransitions [] (buildEdgeMap (edges machine) (id_node child)) = Inr g"
    using assms by (intro groupTransitions_returns) (simp add: buildEdgeMap_def)
  then show ?thesis by (auto simp: stateConfigOf_def Let_def)
qed

lemma buildStatesForParent_step:
  assumes kids: "\<And>child. child \<in> set (filter (\<lambda>n. \<not> isMarker n)
                                       (buildChildrenMap (nodes machine) parentId))
        \<Longrightarrow> \<exists>r. buildStatesForParent machine (Some (id_node child)) = Some r
                  \<and> (safe \<longrightarrow> (\<exists>y. r = Inr y))"
    and cfg: "\<And>child nested. safe \<Longrightarrow> \<exists>stateConfig. stateConfigOf machine child nested = Inr stateConfig"
  shows "\<exists>r. buildStatesForParent machine parentId = Some r \<and> (safe \<longrightarrow> (\<exists>y. r = Inr y))"
proof -
  define children where
    "children = filter (\<lambda>n. \<not> isMarker n) (buildChildrenMap (nodes machine) parentId)"
  define build where
    "build = (\<lambda>child. Option.bind (buildStatesForParent machine (Some (id_node child)))
                (\<lambda>r. Some (case r of
                             Inl err \<Rightarrow> Inl err
                           | Inr nested \<Rightarrow>
                               (case stateConfigOf machine child nested of
                                  Inl err \<Rightarrow> Inl err
                                | Inr stateConfig \<Rightarrow> Inr (child, stateConfig)))))"
  have "\<exists>r. mapM_raising build children = Some r \<and> (safe \<longrightarrow> (\<exists>ys. r = Inr ys))"
  proof (rule mapM_raising_returns)
    fix child assume "child \<in> set children"
    then obtain r where r: "buildStatesForParent machine (Some (id_node child)) = Some r"
        "safe \<longrightarrow> (\<exists>y. r = Inr y)"
      using kids[of child] by (auto simp: children_def)
    show "\<exists>r. build child = Some r \<and> (safe \<longrightarrow> (\<exists>y. r = Inr y))"
    proof (cases safe)
      case False
      with r show ?thesis by (simp add: build_def)
    next
      case True
      with r obtain nested where nested: "r = Inr nested" by auto
      from cfg[OF True, of child nested] obtain stateConfig where
        "stateConfigOf machine child nested = Inr stateConfig" ..
      with r nested show ?thesis by (simp add: build_def)
    qed
  qed
  then obtain r where r: "mapM_raising build children = Some r" "safe \<longrightarrow> (\<exists>ys. r = Inr ys)"
    by auto
  have "buildStatesForParent machine parentId =
      Option.bind (mapM_raising build children)
        (\<lambda>r. Some (case r of
                     Inl err \<Rightarrow> Inl err
                   | Inr configs \<Rightarrow>
                       Inr (foldl (\<lambda>states (child, stateConfig).
                                     objSet states
                                       (stateKeyOf (assignKeys Map.empty [] children) child)
                                       stateConfig)
                              [] configs,
                            assignKeys Map.empty [] children)))"
    unfolding children_def build_def
    by (subst buildStatesForParent.simps) (simp only: Let_def)
  with r show ?thesis by (cases r) auto
qed

lemma buildStatesForParent_child:
  assumes wf: "wf ((parentLinks machine)\<inverse>)"
    and cfg: "\<And>child nested. safe \<Longrightarrow> \<exists>stateConfig. stateConfigOf machine child nested = Inr stateConfig"
  shows "\<exists>r. buildStatesForParent machine (Some x) = Some r \<and> (safe \<longrightarrow> (\<exists>y. r = Inr y))"
  using wf
proof (induction x rule: wf_induct_rule)
  case (less x)
  show ?case
  proof (rule buildStatesForParent_step[OF _ cfg])
    fix child
    assume "child \<in> set (filter (\<lambda>n. \<not> isMarker n) (buildChildrenMap (nodes machine) (Some x)))"
    then have "(id_node child, x) \<in> (parentLinks machine)\<inverse>"
      by (auto simp: parentLinks_def buildChildrenMap_def)
    then show "\<exists>r. buildStatesForParent machine (Some (id_node child)) = Some r
                  \<and> (safe \<longrightarrow> (\<exists>y. r = Inr y))"
      by (rule less.IH)
  qed
qed

lemma buildStatesForParent_returns:
  assumes ac: "acyclic (parentLinks machine)"
    and cfg: "\<And>child nested. safe \<Longrightarrow> \<exists>stateConfig. stateConfigOf machine child nested = Inr stateConfig"
  shows "\<exists>r. buildStatesForParent machine parentId = Some r \<and> (safe \<longrightarrow> (\<exists>y. r = Inr y))"
  by (rule buildStatesForParent_step[OF buildStatesForParent_child[OF wf_parentLinks[OF ac] cfg] cfg])

lemma buildRootState_returns:
  assumes ac: "acyclic (parentLinks machine)"
  shows "\<exists>r. buildRootState machine = Some r
           \<and> ((\<forall>e\<in>set (edges machine). trim (event (data_edge e)) \<notin> set objectPrototypeKeys)
                \<longrightarrow> (\<exists>root. r = Inr root))"
proof -
  define safe where
    "safe = (\<forall>e\<in>set (edges machine). trim (event (data_edge e)) \<notin> set objectPrototypeKeys)"
  have cfg: "\<exists>stateConfig. stateConfigOf machine child nested = Inr stateConfig"
    if safe for child nested
    using that unfolding safe_def by (rule stateConfigOf_returns)
  from buildStatesForParent_returns[OF ac cfg, of safe None]
  obtain r where r: "buildStatesForParent machine None = Some r" "safe \<longrightarrow> (\<exists>y. r = Inr y)"
    by auto
  then show ?thesis
    unfolding safe_def[symmetric] by (cases r) (auto simp: buildRootState_def)
qed

lemma embeddedOf_buildRootState:
  "buildRootState machine = Some (Inr root)
     \<Longrightarrow> embeddedOf root = Some (toSerializableMachine machine)"
  by (auto simp: buildRootState_def embeddedOf_def split: Option.bind_splits sum.splits)

lemma normalizeNode_plainNode: "normalizeNode (plainNode n) = n"
  by (simp add: normalizeNode_def plainNode_def)

lemma normalizeEdge_plainEdge: "normalizeEdge (plainEdge e) = e"
  by (simp add: normalizeEdge_def plainEdge_def)

lemma normalize_plainDocument:
  "normalizeImportedMachine (plainDocument machine) =
     Inr (machine\<lparr>machineId := (if machineId machine = [] then ''importedMachine''
                                else machineId machine)\<rparr>)"
  by (simp add: normalizeImportedMachine_def plainDocument_def truthy_def
      normalizeNode_plainNode normalizeEdge_plainEdge comp_def)

lemma import_of_exported:
  assumes root: "buildRootState machine = Some (Inr root)"
    and codec: "parse (stringify root) = Some (JsonObject root)"
  shows "importMachineFromXState parse now (stringify root) counter =
     (Inr (machine\<lparr>machineId := (if machineId machine = [] then ''importedMachine''
                                 else machineId machine)\<rparr>), counter)"
proof -
  have emb: "(case meta_x root of None \<Rightarrow> None | Some meta \<Rightarrow> fluxState meta)
               = Some (toSerializableMachine machine)"
    using embeddedOf_buildRootState[OF root] by (simp add: embeddedOf_def)
  have isdoc: "isMachineDocument (Some (toSerializableMachine machine))"
    by (simp add: isMachineDocument_def toSerializableMachine_def plainDocument_def)
  show ?thesis
    by (simp add: importMachineFromXState_def codec emb isdoc)
      (simp add: toSerializableMachine_def normalize_plainDocument)
qed

text \<open>
  Claim C1, as the code has it. Where the \<open>parentNode\<close> links have no cycle the export
  returns or raises, and it returns a text where moreover no edge has an event whose
  trimmed name is a member of \<open>Object.prototype\<close>. Whenever it returns a text, on a host
  whose \<open>JSON.parse\<close> reads back what its \<open>JSON.stringify\<close> wrote, and for a document
  whose \<open>machineId\<close> is not empty, the exported definition carries the whole document
  under \<open>meta.fluxState\<close>, and the import of the exported text answers that very
  document, without making a single id: it took the embedded path.
\<close>

theorem export_import_roundtrip:
  "(acyclic (parentLinks machine) \<longrightarrow>
      (\<exists>r. exportMachineAsXState stringify machine = Some r)
      \<and> ((\<forall>e\<in>set (edges machine). trim (event (data_edge e)) \<notin> set objectPrototypeKeys) \<longrightarrow>
           (\<exists>payload. exportMachineAsXState stringify machine = Some (Inr payload))))
   \<and> (\<forall>root. buildRootState machine = Some (Inr root)
          \<longrightarrow> parse (stringify root) = Some (JsonObject root)
          \<longrightarrow> machineId machine \<noteq> []
          \<longrightarrow> embeddedOf root = Some (toSerializableMachine machine)
              \<and> exportMachineAsXState stringify machine = Some (Inr (stringify root))
              \<and> importMachineFromXState parse now (stringify root) counter
                  = (Inr machine, counter))"
proof (intro conjI impI allI)
  assume ac: "acyclic (parentLinks machine)"
  from buildRootState_returns[OF ac]
  show "\<exists>r. exportMachineAsXState stringify machine = Some r"
    by (auto simp: exportMachineAsXState_def)
  assume "\<forall>e\<in>set (edges machine). trim (event (data_edge e)) \<notin> set objectPrototypeKeys"
  with buildRootState_returns[OF ac]
  show "\<exists>payload. exportMachineAsXState stringify machine = Some (Inr payload)"
    by (auto simp: exportMachineAsXState_def)
next
  fix root
  assume root: "buildRootState machine = Some (Inr root)"
    and codec: "parse (stringify root) = Some (JsonObject root)"
    and named: "machineId machine \<noteq> []"
  show "embeddedOf root = Some (toSerializableMachine machine)"
    by (rule embeddedOf_buildRootState[OF root])
  show "exportMachineAsXState stringify machine = Some (Inr (stringify root))"
    by (simp add: exportMachineAsXState_def root)
  show "importMachineFromXState parse now (stringify root) counter = (Inr machine, counter)"
    using import_of_exported[where parse = parse and stringify = stringify, OF root codec, of now counter] named
    by simp
qed

lemma checkout_parentLinks:
  "parentLinks checkoutMachine
     = {(''review'', ''review_shipping''), (''review'', ''review_payment''),
        (''review'', ''review_init_shipping'')}"
  by (auto simp: parentLinks_def checkoutMachine_def mkNode_def)

lemma checkout_links_acyclic: "acyclic (parentLinks checkoutMachine)"
  unfolding checkout_parentLinks
  by (rule acyclicI_order[where f = "\<lambda>s. if s = ''review'' then (1::nat) else 0"]) auto

text \<open>The theorem at the checkout example.\<close>

theorem export_import_roundtrip_witness:
  "acyclic (parentLinks checkoutMachine)
   \<and> list_all (\<lambda>e. trim (event (data_edge e)) \<notin> set objectPrototypeKeys)
         (edges checkoutMachine)
   \<and> machineId checkoutMachine \<noteq> []
   \<and> (\<exists>root. buildRootState checkoutMachine = Some (Inr root)
        \<and> parseSample (stringifySample root) = Some (JsonObject root)
        \<and> embeddedOf root = Some (toSerializableMachine checkoutMachine)
        \<and> exportMachineAsXState stringifySample checkoutMachine
              = Some (Inr (stringifySample root))
        \<and> importMachineFromXState parseSample (\<lambda>n. 0) (stringifySample root) 7
            = (Inr checkoutMachine, 7))"
proof -
  have named: "machineId checkoutMachine \<noteq> []" by (simp add: checkoutMachine_def)
  have safe: "\<forall>e\<in>set (edges checkoutMachine).
      trim (event (data_edge e)) \<notin> set objectPrototypeKeys"
    by code_simp
  note rt = export_import_roundtrip[where machine = checkoutMachine and stringify = stringifySample
      and parse = parseSample and now = "\<lambda>n. 0" and counter = 7]
  have "\<exists>payload. exportMachineAsXState stringifySample checkoutMachine = Some (Inr payload)"
    using conjunct1[OF rt] checkout_links_acyclic safe by blast
  then obtain payload r where
    r: "buildRootState checkoutMachine = Some r" "map_sum id stringifySample r = Inr payload"
    by (auto simp: exportMachineAsXState_def)
  then obtain root where root: "buildRootState checkoutMachine = Some (Inr root)"
    by (cases r) auto
  have codec: "parseSample (stringifySample root) = Some (JsonObject root)"
    by (simp add: parseSample_def stringifySample_def)
  have "embeddedOf root = Some (toSerializableMachine checkoutMachine)
        \<and> exportMachineAsXState stringifySample checkoutMachine
              = Some (Inr (stringifySample root))
        \<and> importMachineFromXState parseSample (\<lambda>n. 0) (stringifySample root) 7
            = (Inr checkoutMachine, 7)"
    by (rule mp[OF mp[OF mp[OF spec[OF conjunct2[OF rt], of root] root] codec] named])
  with root codec have "\<exists>root. buildRootState checkoutMachine = Some (Inr root)
        \<and> parseSample (stringifySample root) = Some (JsonObject root)
        \<and> embeddedOf root = Some (toSerializableMachine checkoutMachine)
        \<and> exportMachineAsXState stringifySample checkoutMachine
              = Some (Inr (stringifySample root))
        \<and> importMachineFromXState parseSample (\<lambda>n. 0) (stringifySample root) 7
            = (Inr checkoutMachine, 7)"
    by (intro exI[of _ root] conjI) simp_all
  with checkout_links_acyclic safe named show ?thesis
    unfolding list_all_iff by (intro conjI)
qed

text \<open>
  The traffic light with an empty \<open>machineId\<close> comes back from the round trip named
  \<open>importedMachine\<close>.
\<close>

theorem unnamed_roundtrip_counterexample:
  "machineId unnamedMachine = []
   \<and> map_option
         (\<lambda>r. case r of
                Inl err \<Rightarrow> Inl err
              | Inr root \<Rightarrow>
                  map_sum id machineId
                    (fst (importMachineFromXState parseSample (\<lambda>n. 0) (stringifySample root) 0)))
         (buildRootState unnamedMachine)
     = Some (Inr ''importedMachine'')"
  by code_simp

text \<open>
  An edge whose event is \<open>toString\<close>: the parent links have no cycle, and the export
  raises.
\<close>

lemma export_prototype_event_raises:
  "parentLinks prototypeEventMachine = {}
   \<and> exportMachineAsXState stringify prototypeEventMachine = Some (Inl TypeError)"
proof -
  have "parentLinks prototypeEventMachine = {}"
    by (auto simp: parentLinks_def prototypeEventMachine_def mkNode_def)
  moreover have "buildRootState prototypeEventMachine = Some (Inl TypeError)" by code_simp
  ultimately show ?thesis by (simp add: exportMachineAsXState_def)
qed

text \<open>
  Ids and targets named after members of \<open>Object.prototype\<close>. The root marker targets
  \<open>toString\<close>, which is no state: the test of the root passes on the inherited function,
  so there is no fallback, and the function is not written. The state with the id
  \<open>__proto__\<close> gets the key \<open>[object Object]\<close>, and the state \<open>a\<close>, whose marker targets
  \<open>__proto__\<close>, gets an object for its \<open>initial\<close>.
\<close>

lemma export_prototype_ids:
  "map_option
     (map_sum id
        (\<lambda>root. (initial_x root, stateKeys root,
                  map_option initial_x (childState root ''a''))))
     (buildRootState prototypeIdMachine)
   = Some (Inr (None, [(''a'', Some ''a''), (''[object Object]'', Some ''__proto__'')],
                Some (Some InitialObject)))"
  by code_simp

text \<open>
  Where two nodes share an id and one is the parent of the other, the recursion of the
  export calls itself on the same parent for ever.
\<close>

lemma buildStatesForParent_duplicate_ids:
  "buildStatesForParent duplicateIdMachine (Some ''x'') = None"
proof (cases "buildStatesForParent duplicateIdMachine (Some ''x'')")
  case None
  then show ?thesis .
next
  case (Some y)
  have kids: "filter (\<lambda>n. \<not> isMarker n) (buildChildrenMap (nodes duplicateIdMachine) (Some ''x''))
      = [mkNode ''x'' ''Inner'' Atomic (Some ''x'')]"
    by (simp add: duplicateIdMachine_def buildChildrenMap_def isMarker_def mkNode_def)
  have "\<not> (duplicateIdMachine = duplicateIdMachine \<and> Some ''x'' = Some ''x'')"
    apply (rule buildStatesForParent.raw_induct
        [where P = "\<lambda>m p y. \<not> (m = duplicateIdMachine \<and> p = Some ''x'')", OF _ Some])
    subgoal premises prems for f m p y
    proof
      assume mp: "m = duplicateIdMachine \<and> p = Some ''x''"
      from prems(2) mp obtain r where "f duplicateIdMachine (Some ''x'') = Some r"
        by (auto simp: kids Let_def mkNode_def split: Option.bind_splits)
      from prems(1)[OF this] show False by simp
    qed
    done
  then show ?thesis by simp
qed

lemma export_duplicate_ids_diverges:
  "exportMachineAsXState stringify duplicateIdMachine = None"
proof -
  have kids: "filter (\<lambda>n. \<not> isMarker n) (buildChildrenMap (nodes duplicateIdMachine) None)
      = [mkNode ''x'' ''Outer'' Atomic None]"
    by (simp add: duplicateIdMachine_def buildChildrenMap_def isMarker_def mkNode_def)
  have "buildStatesForParent duplicateIdMachine None = None"
    by (subst buildStatesForParent.simps)
      (simp add: kids Let_def mkNode_def buildStatesForParent_duplicate_ids)
  then show ?thesis by (simp add: exportMachineAsXState_def buildRootState_def)
qed




text \<open>
  Claim C4 at a compound state with two children and no initial marker. The root of
  the export falls back to its first state key; the nested compound state \<open>p\<close> is
  exported with its two states and without \<open>initial\<close>, while entry picks its first
  child \<open>c1\<close>.
\<close>

theorem nested_initial_omitted:
  "map_option (map_sum id initial_x) (buildRootState nestedMachine)
       = Some (Inr (Some (InitialKey ''parent'')))
   \<and> map_option
         (map_sum id
            (\<lambda>root. map_option (\<lambda>st. (id_x st, initial_x st, map fst (stateKeys st)))
                      (childState root ''parent'')))
         (buildRootState nestedMachine)
       = Some (Inr (Some (Some ''p'', None, [''first'', ''second''])))
   \<and> findInitialTarget (Some ''p'') (buildMaps nestedMachine) = Some ''c1''
   \<and> enterNode ''p'' (buildMaps nestedMachine) {} = Some [''c1'']"
  by code_simp

text \<open>
  Claim C8 at three sibling states labelled \<open>a\<close>, \<open>a\<close> and \<open>a 2\<close>. The second
  occurrence of the base \<open>a\<close> gets the key \<open>a_2\<close>, which is also the base of the third
  label: two siblings share a key, and the exported \<open>states\<close> keeps two entries, the
  third state in place of the second.
\<close>

theorem repeated_label_keys_collide:
  "assignKeys Map.empty [] (nodes repeatedLabelMachine)
     = [(''n1'', ''a''), (''n2'', ''a_2''), (''n3'', ''a_2'')]
   \<and> map_option (map_sum id stateKeys) (buildRootState repeatedLabelMachine)
       = Some (Inr [(''a'', Some ''n1''), (''a_2'', Some ''n3'')])"
  by code_simp

end
